theory Spec2Isabelle
  imports Main "HOL-Library.Word"
begin

section \<open>Shared types\<close>

type_synonym byte = "8 word"

text \<open>
  \<^verbatim>\<open>common.Address\<close> is a \<^verbatim>\<open>[20]byte\<close> array. It is modelled as the list of its bytes; the
  array length is the constant \<open>ADDR_LEN\<close>.
\<close>

type_synonym Address = "byte list"

definition ADDR_LEN :: nat where
  "ADDR_LEN = 20"

section \<open>The consensus core's event handling (consensus/hotstuff/basic/core/handler.go)\<close>

subsection \<open>Errors (the package's error variables)\<close>

text \<open>
  Every variable of the error file is one \<^verbatim>\<open>errors.New\<close> value, and Go compares errors by
  identity, so each is a constructor of its own. \<open>errForeign\<close> stands for an error value
  created elsewhere (a decoder's error, for example); it is equal to none of the variables.
\<close>

datatype error =
    errInconsistentVote
  | errInconsistentPrepareQC
  | errInvalidDigest
  | errNotFromProposer
  | errNotToProposer
  | errFutureMessage
  | errOldMessage
  | errOldVote
  | errInvalidMessage
  | errFailedDecodeNewView
  | errFailedDecodePrepare
  | errFailedDecodePrepareVote
  | errFailedDecodePreCommit
  | errFailedDecodePreCommitVote
  | errFailedDecodeCommit
  | errFailedDecodeDecide
  | errFailedDecodeCommitVote
  | errInvalidSigner
  | errState
  | errProposal
  | errMsgTypeInvalid
  | errNoRequest
  | errInvalidProposal
  | errInvalidQCParticipant
  | errVerifyUnsealedProposal
  | errExtend
  | errVerifyQC
  | errSafeNode
  | errAddNewViews
  | errAddPrepareVote
  | errAddPreCommitVote
  | errAddCommitVote
  | errForeign string

subsection \<open>Messages, validators, events\<close>

text \<open>
  The message codes that \<^verbatim>\<open>handleCheckedMsg\<close> switches on. Their numeric values are declared
  outside handler.go; Go rejects a switch with two equal constant cases, so the seven are
  pairwise different. \<open>MsgTypeOther n\<close> is any other value of the code.
\<close>

datatype MsgType =
    MsgTypeNewView
  | MsgTypePrepare
  | MsgTypePrepareVote
  | MsgTypePreCommit
  | MsgTypePreCommitVote
  | MsgTypeCommit
  | MsgTypeCommitVote
  | MsgTypeOther nat

text \<open>
  handler.go reads two fields of a message, \<^verbatim>\<open>Code\<close> and \<^verbatim>\<open>Address\<close>; whatever else a message
  carries is the record's extension. A message is handled as a value: the handlers it is
  passed to read it.
\<close>

record message =
  Code :: MsgType
  Address :: Address

text \<open>
  \<^verbatim>\<open>hotstuff.Validator\<close> is an interface; a validator is a value of the type parameter \<open>'v\<close>,
  and the nil interface is \<open>None\<close>. The validator set is used through one method.
\<close>

record 'v ValidatorSet =
  GetByAddress :: "Address \<Rightarrow> int \<times> 'v option"

record 'p Request =
  Proposal :: 'p

text \<open>The three event types the core subscribes to on its general subscription.\<close>

datatype ('p, 'm, 'v) Event =
    RequestEvent 'p
  | MessageEvent "byte list"
  | backlogEvent "'m message_scheme" 'v

subsection \<open>The event mux and the core\<close>

datatype EventType =
    RequestEventT
  | MessageEventT
  | backlogEventT
  | timeoutEventT
  | FinalCommittedEventT

text \<open>
  Modelled from the spec: the event mux (\<^verbatim>\<open>c.backend.EventMux()\<close>) is not part of handler.go.
  The spec's contract of the backend is \<^verbatim>\<open>Subscribe(eventTypes...) -> Subscription{Chan(),
  Unsubscribe()}\<close>: the mux is the list of its live subscriptions, each with the event types
  it was made for; a subscription is named by the number the mux gave it.
\<close>

record TypeMux =
  subm :: "(nat \<times> EventType list) list"
  created :: nat

definition Subscribe :: "EventType list \<Rightarrow> TypeMux \<Rightarrow> nat \<times> TypeMux" where
  "Subscribe types m =
     (created m, m\<lparr>subm := subm m @ [(created m, types)], created := Suc (created m)\<rparr>)"

definition Unsubscribe :: "nat \<Rightarrow> TypeMux \<Rightarrow> TypeMux" where
  "Unsubscribe s m = m\<lparr>subm := filter (\<lambda>e. fst e \<noteq> s) (subm m)\<rparr>"

definition subscribed :: "TypeMux \<Rightarrow> nat set" where
  "subscribed m = fst ` set (subm m)"

text \<open>\<^verbatim>\<open>c.current\<close>: handler.go reads its round, a \<^verbatim>\<open>*big.Int\<close>.\<close>

record roundState =
  Round :: int

text \<open>
  The fields of the core that handler.go uses. The three subscriptions are pointers, nil
  (\<open>None\<close>) until \<^verbatim>\<open>subscribeEvents\<close> has run. \<open>timer\<close> says whether the round timer is
  running. Everything else the core holds (phase, votes, backlog, logger) is the record's
  extension.
\<close>

record 'v core =
  current :: roundState
  valSet :: "'v ValidatorSet"
  mux :: TypeMux
  events :: "nat option"
  timeoutSub :: "nat option"
  finalCommittedSub :: "nat option"
  timer :: bool

text \<open>
  The methods of the core that handler.go calls and that are declared in other files of
  the package. They are parameters of the model: each takes the core and returns it
  changed, with the error it returns, if any. \<open>FromPayload\<close> decodes a payload and checks
  its signature with the core's \<^verbatim>\<open>validateFn\<close>; it fills a new message or returns an error.
\<close>

record ('p, 'm, 'v, 'x) core_ops =
  startNewRound :: "int \<Rightarrow> ('v, 'x) core_scheme \<Rightarrow> ('v, 'x) core_scheme"
  handleRequest :: "'p Request \<Rightarrow> ('v, 'x) core_scheme \<Rightarrow> error option \<times> ('v, 'x) core_scheme"
  FromPayload :: "byte list \<Rightarrow> ('v, 'x) core_scheme \<Rightarrow> error + 'm message_scheme"
  handleNewView :: "'m message_scheme \<Rightarrow> 'v \<Rightarrow> ('v, 'x) core_scheme \<Rightarrow> error option \<times> ('v, 'x) core_scheme"
  handlePrepare :: "'m message_scheme \<Rightarrow> 'v \<Rightarrow> ('v, 'x) core_scheme \<Rightarrow> error option \<times> ('v, 'x) core_scheme"
  handlePrepareVote :: "'m message_scheme \<Rightarrow> 'v \<Rightarrow> ('v, 'x) core_scheme \<Rightarrow> error option \<times> ('v, 'x) core_scheme"
  handlePreCommit :: "'m message_scheme \<Rightarrow> 'v \<Rightarrow> ('v, 'x) core_scheme \<Rightarrow> error option \<times> ('v, 'x) core_scheme"
  handlePreCommitVote :: "'m message_scheme \<Rightarrow> 'v \<Rightarrow> ('v, 'x) core_scheme \<Rightarrow> error option \<times> ('v, 'x) core_scheme"
  handleCommit :: "'m message_scheme \<Rightarrow> 'v \<Rightarrow> ('v, 'x) core_scheme \<Rightarrow> error option \<times> ('v, 'x) core_scheme"
  handleCommitVote :: "'m message_scheme \<Rightarrow> 'v \<Rightarrow> ('v, 'x) core_scheme \<Rightarrow> error option \<times> ('v, 'x) core_scheme"
  storeBacklog :: "'m message_scheme \<Rightarrow> 'v \<Rightarrow> ('v, 'x) core_scheme \<Rightarrow> ('v, 'x) core_scheme"
  handleFinalCommitted :: "('v, 'x) core_scheme \<Rightarrow> ('v, 'x) core_scheme"

subsection \<open>Stop, subscribeEvents, unsubscribeEvents\<close>

text \<open>
  Modelled from the spec: \<^verbatim>\<open>stopTimer\<close> is not part of handler.go. The spec's timeout manager
  has one timer at a time, and its \<^verbatim>\<open>StopTimer()\<close> "is idempotent and safe to call with no
  active timer": stopping clears the flag.
\<close>

definition stopTimer :: "('v, 'x) core_scheme \<Rightarrow> ('v, 'x) core_scheme" where
  "stopTimer c = c\<lparr>timer := False\<rparr>"

definition subscribeEvents :: "('v, 'x) core_scheme \<Rightarrow> ('v, 'x) core_scheme" where
  "subscribeEvents c =
     (let (s1, m1) = Subscribe [RequestEventT, MessageEventT, backlogEventT] (mux c);
          (s2, m2) = Subscribe [timeoutEventT] m1;
          (s3, m3) = Subscribe [FinalCommittedEventT] m2
      in c\<lparr>mux := m3, events := Some s1, timeoutSub := Some s2, finalCommittedSub := Some s3\<rparr>)"

text \<open>
  Calling \<^verbatim>\<open>Unsubscribe\<close> through a nil subscription is a nil dereference: the goroutine
  panics at the first of the three that is nil, after the ones before it have been
  unsubscribed.
\<close>

datatype panic = NilDereference

definition unsubscribeEvents :: "('v, 'x) core_scheme \<Rightarrow> panic + ('v, 'x) core_scheme" where
  "unsubscribeEvents c =
     (case events c of None \<Rightarrow> Inl NilDereference
      | Some e \<Rightarrow>
     (case timeoutSub c of None \<Rightarrow> Inl NilDereference
      | Some t \<Rightarrow>
     (case finalCommittedSub c of None \<Rightarrow> Inl NilDereference
      | Some f \<Rightarrow> Inr (c\<lparr>mux := Unsubscribe f (Unsubscribe t (Unsubscribe e (mux c)))\<rparr>))))"

definition Stop :: "('v, 'x) core_scheme \<Rightarrow> panic + (error option \<times> ('v, 'x) core_scheme)" where
  "Stop c =
     (case unsubscribeEvents (stopTimer c) of
        Inl p \<Rightarrow> Inl p
      | Inr c' \<Rightarrow> Inr (None, c'))"

subsection \<open>handleMsg, handleCheckedMsg, handleTimeoutMsg\<close>

text \<open>
  The closure \<^verbatim>\<open>testBacklog\<close> of \<^verbatim>\<open>handleCheckedMsg\<close>: it is applied to what a handler
  returned (the error and the core the handler left).
\<close>

definition testBacklog ::
  "('p, 'm, 'v, 'x) core_ops \<Rightarrow> 'm message_scheme \<Rightarrow> 'v \<Rightarrow>
   error option \<times> ('v, 'x) core_scheme \<Rightarrow> error option \<times> ('v, 'x) core_scheme" where
  "testBacklog ops msg src r =
     (case r of (err, c) \<Rightarrow>
        if err = Some errFutureMessage then (err, storeBacklog ops msg src c) else (err, c))"

definition handleCheckedMsg ::
  "('p, 'm, 'v, 'x) core_ops \<Rightarrow> 'm message_scheme \<Rightarrow> 'v \<Rightarrow>
   ('v, 'x) core_scheme \<Rightarrow> error option \<times> ('v, 'x) core_scheme" where
  "handleCheckedMsg ops msg src c =
     (case Code msg of
        MsgTypeNewView \<Rightarrow> testBacklog ops msg src (handleNewView ops msg src c)
      | MsgTypePrepare \<Rightarrow> testBacklog ops msg src (handlePrepare ops msg src c)
      | MsgTypePrepareVote \<Rightarrow> testBacklog ops msg src (handlePrepareVote ops msg src c)
      | MsgTypePreCommit \<Rightarrow> testBacklog ops msg src (handlePreCommit ops msg src c)
      | MsgTypePreCommitVote \<Rightarrow> testBacklog ops msg src (handlePreCommitVote ops msg src c)
      | MsgTypeCommit \<Rightarrow> testBacklog ops msg src (handleCommit ops msg src c)
      | MsgTypeCommitVote \<Rightarrow> testBacklog ops msg src (handleCommitVote ops msg src c)
      | MsgTypeOther n \<Rightarrow> (Some errInvalidMessage, c))"

definition handleMsg ::
  "('p, 'm, 'v, 'x) core_ops \<Rightarrow> byte list \<Rightarrow>
   ('v, 'x) core_scheme \<Rightarrow> error option \<times> ('v, 'x) core_scheme" where
  "handleMsg ops payload c =
     (case FromPayload ops payload c of
        Inl err \<Rightarrow> (Some err, c)
      | Inr msg \<Rightarrow>
          (case snd (GetByAddress (valSet c) (Address msg)) of
             None \<Rightarrow> (Some errInvalidSigner, c)
           | Some src \<Rightarrow> handleCheckedMsg ops msg src c))"

definition handleTimeoutMsg ::
  "('p, 'm, 'v, 'x) core_ops \<Rightarrow> ('v, 'x) core_scheme \<Rightarrow> ('v, 'x) core_scheme" where
  "handleTimeoutMsg ops c =
     (let round = Round (current c) + 1 in startNewRound ops round c)"

subsection \<open>handleEvents\<close>

text \<open>
  What one \<^verbatim>\<open>select\<close> of the loop receives: a value and \<^verbatim>\<open>ok\<close> from one of the three
  channels. On the general channel the value is an event, and \<open>None\<close> is a receive with
  \<^verbatim>\<open>ok = false\<close> (the channel is closed); on the two others only \<^verbatim>\<open>ok\<close> is read.
\<close>

datatype ('p, 'm, 'v) Select =
    EventsChan "('p, 'm, 'v) Event option"
  | TimeoutChan bool
  | FinalCommittedChan bool

text \<open>
  The body of the loop for one receive: \<open>None\<close> when the function returns, otherwise the
  core with which the loop goes round again. The handlers' errors are assigned to \<^verbatim>\<open>_\<close>.
\<close>

definition handleEvents_select ::
  "('p, 'm, 'v, 'x) core_ops \<Rightarrow> ('p, 'm, 'v) Select \<Rightarrow>
   ('v, 'x) core_scheme \<Rightarrow> ('v, 'x) core_scheme option" where
  "handleEvents_select ops s c =
     (case s of
        EventsChan None \<Rightarrow> None
      | EventsChan (Some (RequestEvent p)) \<Rightarrow>
          Some (snd (handleRequest ops \<lparr>Proposal = p\<rparr> c))
      | EventsChan (Some (MessageEvent payload)) \<Rightarrow>
          Some (snd (handleMsg ops payload c))
      | EventsChan (Some (backlogEvent msg src)) \<Rightarrow>
          Some (snd (handleCheckedMsg ops msg src c))
      | TimeoutChan ok \<Rightarrow>
          if \<not> ok then None else Some (handleTimeoutMsg ops c)
      | FinalCommittedChan ok \<Rightarrow>
          if \<not> ok then None else Some (handleFinalCommitted ops c))"

text \<open>
  The loop, run on the receives of its selects in the order they happen: each element of
  the list is a receive that has happened, on the channel of a subscription that exists
  (\<^verbatim>\<open>Start\<close> calls \<^verbatim>\<open>subscribeEvents\<close> before it starts the loop). It has returned when a
  receive found its channel closed; when the receives are used up the loop is blocked in
  \<^verbatim>\<open>select\<close>, waiting. Logging is left out.
\<close>

datatype loop_state = Returned | Waiting

fun handleEvents ::
  "('p, 'm, 'v, 'x) core_ops \<Rightarrow> ('p, 'm, 'v) Select list \<Rightarrow>
   ('v, 'x) core_scheme \<Rightarrow> loop_state \<times> ('v, 'x) core_scheme" where
  "handleEvents ops [] c = (Waiting, c)"
| "handleEvents ops (s # ss) c =
     (case handleEvents_select ops s c of
        None \<Rightarrow> (Returned, c)
      | Some c' \<Rightarrow> handleEvents ops ss c')"

text \<open>A receive that found its channel closed (\<^verbatim>\<open>ok = false\<close>).\<close>

definition closed :: "('p, 'm, 'v) Select \<Rightarrow> bool" where
  "closed s =
     (case s of
        EventsChan None \<Rightarrow> True
      | EventsChan (Some ev) \<Rightarrow> False
      | TimeoutChan ok \<Rightarrow> \<not> ok
      | FinalCommittedChan ok \<Rightarrow> \<not> ok)"

subsection \<open>Parameters that keep the round\<close>

text \<open>
  A property of the parameters, used in the proofs about the round: none of the methods
  returns the core with a lower round than it was given, \<^verbatim>\<open>startNewRound\<close> when it is asked
  for a round that is not below the current one. The loop keeps the round under every
  such choice of the parameters, and the spec's model of the methods (\<open>round_ops\<close>, below)
  is such a choice.
\<close>

definition round_kept :: "('p, 'm, 'v, 'x) core_ops \<Rightarrow> bool" where
  "round_kept ops \<longleftrightarrow>
     (\<forall>r c. Round (current c) \<le> r \<longrightarrow> Round (current c) \<le> Round (current (startNewRound ops r c)))
   \<and> (\<forall>req c. Round (current c) \<le> Round (current (snd (handleRequest ops req c))))
   \<and> (\<forall>msg src c. Round (current c) \<le> Round (current (snd (handleNewView ops msg src c))))
   \<and> (\<forall>msg src c. Round (current c) \<le> Round (current (snd (handlePrepare ops msg src c))))
   \<and> (\<forall>msg src c. Round (current c) \<le> Round (current (snd (handlePrepareVote ops msg src c))))
   \<and> (\<forall>msg src c. Round (current c) \<le> Round (current (snd (handlePreCommit ops msg src c))))
   \<and> (\<forall>msg src c. Round (current c) \<le> Round (current (snd (handlePreCommitVote ops msg src c))))
   \<and> (\<forall>msg src c. Round (current c) \<le> Round (current (snd (handleCommit ops msg src c))))
   \<and> (\<forall>msg src c. Round (current c) \<le> Round (current (snd (handleCommitVote ops msg src c))))
   \<and> (\<forall>msg src c. Round (current c) \<le> Round (current (storeBacklog ops msg src c)))
   \<and> (\<forall>c. Round (current c) \<le> Round (current (handleFinalCommitted ops c)))"

section \<open>An instance of the core's parameters\<close>

text \<open>
  The theorems below hold for every choice of the parameters \<open>core_ops\<close>. To evaluate them
  at concrete inputs, this section fixes one choice: messages that carry a round, a core
  that keeps its backlog as a list, and handlers that apply the round rule of the spec.
\<close>

record round_message = message +
  msg_round :: int

record 'v backlog_core = "'v core" +
  backlog :: "(round_message \<times> 'v) list"

text \<open>
  Modelled from the spec: the per-code handlers are not part of handler.go. The spec says
  of a message whose round is ahead of the current round "classify as FutureMessage" and
  of one whose round is behind "classify as OldMessage/OldVote, discard"; a message of the
  current round is accepted here without any further check.
\<close>

definition round_rule ::
  "round_message \<Rightarrow> 'v \<Rightarrow> 'v backlog_core \<Rightarrow> error option \<times> 'v backlog_core" where
  "round_rule msg src c =
     (if Round (current c) < msg_round msg then (Some errFutureMessage, c)
      else if msg_round msg < Round (current c) then (Some errOldMessage, c)
      else (None, c))"

text \<open>
  Modelled from the spec: \<^verbatim>\<open>startNewRound\<close> and \<^verbatim>\<open>handleFinalCommitted\<close> are not part of
  handler.go. The spec says that a timeout "advances currentRound by 1" and that a final
  commit "starts the next round (currentRound+1)"; a new round starts its timer.
\<close>

definition set_round :: "int \<Rightarrow> 'v backlog_core \<Rightarrow> 'v backlog_core" where
  "set_round r c = c\<lparr>current := \<lparr>Round = r\<rparr>, timer := True\<rparr>"

text \<open>A decoder that knows the payloads of a table and rejects every other payload.\<close>

definition table_decoder ::
  "(byte list \<times> round_message) list \<Rightarrow> byte list \<Rightarrow> 'v backlog_core \<Rightarrow> error + round_message" where
  "table_decoder tab payload c =
     (case map_of tab payload of
        None \<Rightarrow> Inl (errForeign ''undecodable payload'')
      | Some msg \<Rightarrow> Inr msg)"

text \<open>
  Modelled from the spec: the methods of the core that handler.go calls are not part of
  handler.go. \<open>round_ops\<close> is the spec's account of them, as far as the round, the timer and
  the backlog go (the model keeps nothing else of the core: messages sent, phase and votes
  are left out). \<^verbatim>\<open>startNewRound\<close> makes the round it is given the current one; a final
  commit "starts the next round (currentRound+1)"; each of the seven handlers applies the
  round rule; a request "produces no message" unless the replica is the proposer, and in
  neither case touches the round; the backlog's \<^verbatim>\<open>Store(message, signer)\<close> keeps the entries
  in insertion order.
\<close>

definition round_ops ::
  "(byte list \<times> round_message) list \<Rightarrow> (nat, unit round_message_ext, 'v, ('v, unit) backlog_core_ext) core_ops" where
  "round_ops tab =
     \<lparr>startNewRound = set_round,
      handleRequest = (\<lambda>req c. (None, c)),
      FromPayload = table_decoder tab,
      handleNewView = round_rule,
      handlePrepare = round_rule,
      handlePrepareVote = round_rule,
      handlePreCommit = round_rule,
      handlePreCommitVote = round_rule,
      handleCommit = round_rule,
      handleCommitVote = round_rule,
      storeBacklog = (\<lambda>msg src c. c\<lparr>backlog := backlog c @ [(msg, src)]\<rparr>),
      handleFinalCommitted = (\<lambda>c. set_round (Round (current c) + 1) c)\<rparr>"

text \<open>A validator set given by the list of its addresses; a validator is its address.\<close>

fun lookup_validator :: "Address \<Rightarrow> Address list \<Rightarrow> int \<times> Address option" where
  "lookup_validator a [] = (- 1, None)"
| "lookup_validator a (v # vs) =
     (if a = v then (0, Some v)
      else (case lookup_validator a vs of
              (i, None) \<Rightarrow> (- 1, None)
            | (i, Some w) \<Rightarrow> (i + 1, Some w)))"

definition addr_A :: Address where
  "addr_A = replicate 20 1"

definition addr_B :: Address where
  "addr_B = replicate 20 2"

definition core0 :: "Address backlog_core" where
  "core0 =
     \<lparr>current = \<lparr>Round = 3\<rparr>,
      valSet = \<lparr>GetByAddress = (\<lambda>a. lookup_validator a [addr_A])\<rparr>,
      mux = \<lparr>subm = [], created = 0\<rparr>,
      events = None, timeoutSub = None, finalCommittedSub = None,
      timer = True,
      backlog = []\<rparr>"

definition msg_future :: round_message where
  "msg_future = \<lparr>Code = MsgTypePrepareVote, Address = addr_A, msg_round = 5\<rparr>"

definition msg_current :: round_message where
  "msg_current = \<lparr>Code = MsgTypePrepare, Address = addr_A, msg_round = 3\<rparr>"

definition msg_stranger :: round_message where
  "msg_stranger = \<lparr>Code = MsgTypePrepare, Address = addr_B, msg_round = 3\<rparr>"

definition msg_unknown :: round_message where
  "msg_unknown = \<lparr>Code = MsgTypeOther 99, Address = addr_A, msg_round = 3\<rparr>"

definition payloads :: "(byte list \<times> round_message) list" where
  "payloads = [([1], msg_future), ([2], msg_current), ([3], msg_stranger), ([4], msg_unknown)]"

section \<open>The header-sync parameters (contracts/native/header_sync/common/param.go)\<close>

subsection \<open>The sink and the source\<close>

text \<open>
  The three parameter structs write themselves to a \<^verbatim>\<open>polycomm.ZeroCopySink\<close> and read
  themselves from a \<^verbatim>\<open>polycomm.ZeroCopySource\<close>. Both types belong to an imported library
  (\<^verbatim>\<open>github.com/polynetwork/poly/common\<close>), not to this repository; param.go calls seven of
  their methods. They are modelled by the library's wire format: an integer of fixed width
  is written little-endian; a byte string is written as its length, a variable-length
  integer (one byte below \<open>0xFD\<close>, otherwise a marker \<open>0xFD\<close>, \<open>0xFE\<close> or \<open>0xFF\<close> and the
  value in 2, 4 or 8 bytes), followed by its bytes; an address is written as its 20 bytes.
  A reader returns its value with the flag \<^verbatim>\<open>eof\<close> and moves the offset of the source; a read
  that would pass the end of the buffer returns \<^verbatim>\<open>eof = true\<close> and leaves the offset at the
  end.
\<close>

type_synonym uint64 = "64 word"

text \<open>
  \<^verbatim>\<open>binary.LittleEndian.PutUintN\<close> and \<^verbatim>\<open>UintN\<close>, on the numeric value: byte \<open>i\<close> of \<open>v\<close> is
  \<open>v div 256 ^ i mod 256\<close>.
\<close>

fun putLE :: "nat \<Rightarrow> nat \<Rightarrow> byte list" where
  "putLE 0 v = []"
| "putLE (Suc k) v = of_nat (v mod 256) # putLE k (v div 256)"

fun getLE :: "byte list \<Rightarrow> nat" where
  "getLE [] = 0"
| "getLE (b # bs) = unat b + 256 * getLE bs"

record ZeroCopySink =
  sink_buf :: "byte list"

definition NewZeroCopySink :: ZeroCopySink where
  "NewZeroCopySink = \<lparr>sink_buf = []\<rparr>"

definition Bytes :: "ZeroCopySink \<Rightarrow> byte list" where
  "Bytes sink = sink_buf sink"

definition WriteBytes :: "byte list \<Rightarrow> ZeroCopySink \<Rightarrow> ZeroCopySink" where
  "WriteBytes p sink = sink\<lparr>sink_buf := sink_buf sink @ p\<rparr>"

definition WriteUint64 :: "uint64 \<Rightarrow> ZeroCopySink \<Rightarrow> ZeroCopySink" where
  "WriteUint64 v sink = WriteBytes (putLE 8 (unat v)) sink"

definition WriteAddress :: "Address \<Rightarrow> ZeroCopySink \<Rightarrow> ZeroCopySink" where
  "WriteAddress addr sink = WriteBytes addr sink"

definition WriteVarUint :: "uint64 \<Rightarrow> ZeroCopySink \<Rightarrow> ZeroCopySink" where
  "WriteVarUint v sink =
     (if v < 0xFD then WriteBytes [ucast v] sink
      else if v \<le> 0xFFFF then WriteBytes (0xFD # putLE 2 (unat (ucast v :: 16 word))) sink
      else if v \<le> 0xFFFFFFFF then WriteBytes (0xFE # putLE 4 (unat (ucast v :: 32 word))) sink
      else WriteBytes (0xFF # putLE 8 (unat v)) sink)"

definition WriteVarBytes :: "byte list \<Rightarrow> ZeroCopySink \<Rightarrow> ZeroCopySink" where
  "WriteVarBytes data sink = WriteBytes data (WriteVarUint (of_nat (length data)) sink)"

text \<open>
  The source: the buffer \<^verbatim>\<open>s\<close> and the reading offset \<^verbatim>\<open>off\<close>, a \<^verbatim>\<open>uint64\<close> (the fields
  \<open>src_s\<close> and \<open>src_off\<close>; the sink's buffer is \<open>sink_buf\<close>). \<open>NextBytes\<close> checks the
  addition of the offset and the count for overflow (\<^verbatim>\<open>SafeAdd\<close>). No reader moves the
  offset past the end of the buffer.
\<close>

record ZeroCopySource =
  src_s :: "byte list"
  src_off :: nat

definition NewZeroCopySource :: "byte list \<Rightarrow> ZeroCopySource" where
  "NewZeroCopySource b = \<lparr>src_s = b, src_off = 0\<rparr>"

definition NextBytes :: "uint64 \<Rightarrow> ZeroCopySource \<Rightarrow> (byte list \<times> bool) \<times> ZeroCopySource" where
  "NextBytes n source =
     (let m = length (src_s source);
          end = src_off source + unat n;
          overflow = (2 ^ 64 \<le> end)
      in if overflow \<or> m < end
         then ((drop (src_off source) (src_s source), True), source\<lparr>src_off := m\<rparr>)
         else ((take (unat n) (drop (src_off source) (src_s source)), False),
               source\<lparr>src_off := end\<rparr>))"

definition NextByte :: "ZeroCopySource \<Rightarrow> (byte \<times> bool) \<times> ZeroCopySource" where
  "NextByte source =
     (if length (src_s source) \<le> src_off source then ((0, True), source)
      else ((src_s source ! src_off source, False), source\<lparr>src_off := src_off source + 1\<rparr>))"

definition NextUint16 :: "ZeroCopySource \<Rightarrow> (16 word \<times> bool) \<times> ZeroCopySource" where
  "NextUint16 source =
     (case NextBytes 2 source of
        ((buf, eof), source') \<Rightarrow>
          if eof then ((0, True), source') else ((of_nat (getLE buf), False), source'))"

definition NextUint32 :: "ZeroCopySource \<Rightarrow> (32 word \<times> bool) \<times> ZeroCopySource" where
  "NextUint32 source =
     (case NextBytes 4 source of
        ((buf, eof), source') \<Rightarrow>
          if eof then ((0, True), source') else ((of_nat (getLE buf), False), source'))"

definition NextUint64 :: "ZeroCopySource \<Rightarrow> (uint64 \<times> bool) \<times> ZeroCopySource" where
  "NextUint64 source =
     (case NextBytes 8 source of
        ((buf, eof), source') \<Rightarrow>
          if eof then ((0, True), source') else ((of_nat (getLE buf), False), source'))"

definition NextVarUint :: "ZeroCopySource \<Rightarrow> (uint64 \<times> bool) \<times> ZeroCopySource" where
  "NextVarUint source =
     (case NextByte source of
        ((fb, eof), source1) \<Rightarrow>
          if eof then ((0, True), source1)
          else if fb = 0xFD then
            (case NextUint16 source1 of
               ((val, e), source2) \<Rightarrow>
                 if e then ((0, True), source2) else ((ucast val, False), source2))
          else if fb = 0xFE then
            (case NextUint32 source1 of
               ((val, e), source2) \<Rightarrow>
                 if e then ((0, True), source2) else ((ucast val, False), source2))
          else if fb = 0xFF then
            (case NextUint64 source1 of
               ((val, e), source2) \<Rightarrow>
                 if e then ((0, True), source2) else ((val, False), source2))
          else ((ucast fb, False), source1))"

definition NextVarBytes :: "ZeroCopySource \<Rightarrow> (byte list \<times> bool) \<times> ZeroCopySource" where
  "NextVarBytes source =
     (case NextVarUint source of
        ((count, eof), source1) \<Rightarrow>
          if eof then (([], True), source1) else NextBytes count source1)"

definition NextAddress :: "ZeroCopySource \<Rightarrow> (Address \<times> bool) \<times> ZeroCopySource" where
  "NextAddress source =
     (case NextBytes (of_nat ADDR_LEN) source of
        ((buf, eof), source') \<Rightarrow>
          if eof then ((replicate ADDR_LEN 0, True), source') else ((buf, False), source'))"

subsection \<open>SyncGenesisHeaderParam\<close>

text \<open>
  The error a \<^verbatim>\<open>Deserialization\<close> returns is a new \<^verbatim>\<open>fmt.Errorf\<close> value; \<open>None\<close> is nil. A
  \<^verbatim>\<open>Deserialization\<close> returns its error together with the receiver and the source as it
  leaves them.
\<close>

datatype fmt_error = Errorf string

record SyncGenesisHeaderParam =
  ChainID :: uint64
  GenesisHeader :: "byte list"

definition SyncGenesisHeaderParam_Serialization ::
  "SyncGenesisHeaderParam \<Rightarrow> ZeroCopySink \<Rightarrow> ZeroCopySink" where
  "SyncGenesisHeaderParam_Serialization this sink =
     WriteVarBytes (GenesisHeader this) (WriteUint64 (SyncGenesisHeaderParam.ChainID this) sink)"

definition SyncGenesisHeaderParam_Deserialization ::
  "SyncGenesisHeaderParam \<Rightarrow> ZeroCopySource \<Rightarrow>
   fmt_error option \<times> SyncGenesisHeaderParam \<times> ZeroCopySource" where
  "SyncGenesisHeaderParam_Deserialization this source =
     (case NextUint64 source of
        ((chainID, eof), source1) \<Rightarrow>
          if eof then (Some (Errorf ''SyncGenesisHeaderParam deserialize chainID error''), this, source1)
          else
     (case NextVarBytes source1 of
        ((genesisHeader, eof), source2) \<Rightarrow>
          if eof then (Some (Errorf ''utils.DecodeVarBytes, deserialize genesisHeader count error''), this, source2)
          else (None, this\<lparr>SyncGenesisHeaderParam.ChainID := chainID, GenesisHeader := genesisHeader\<rparr>, source2)))"

subsection \<open>SyncBlockHeaderParam and SyncCrossChainMsgParam\<close>

text \<open>
  The loop \<^verbatim>\<open>for i := 0; uint64(i) < n; i++\<close> of the two list-valued structs, with the local
  slice it appends to. \<open>i\<close> is \<^verbatim>\<open>uint64(i)\<close>: on a 64-bit platform \<^verbatim>\<open>int\<close> has 64 bits, and
  incrementing it (with Go's wrap-around) increments its conversion to \<^verbatim>\<open>uint64\<close>. The
  first component of the result says whether a read returned \<^verbatim>\<open>eof\<close>, which is where the
  two functions return their error.
\<close>

function NextVarBytes_loop ::
  "uint64 \<Rightarrow> uint64 \<Rightarrow> byte list list \<Rightarrow> ZeroCopySource \<Rightarrow>
   bool \<times> byte list list \<times> ZeroCopySource" where
  "NextVarBytes_loop i n headers source =
     (if i < n then
        (case NextVarBytes source of
           ((header, eof), source') \<Rightarrow>
             if eof then (True, headers, source')
             else NextVarBytes_loop (i + 1) n (headers @ [header]) source')
      else (False, headers, source))"
  by pat_completeness auto
termination
proof (relation "measure (\<lambda>(i, n, headers, source). unat n - unat i)")
  show "wf (measure (\<lambda>(i, n, headers, source). unat n - unat i))"
    by simp
next
  fix i n :: uint64 and headers :: "byte list list" and source :: ZeroCopySource
    and x xa y x1 x2
  assume "i < n"
  have "unat n < 2 ^ 64"
    using unsigned_less [of n] by simp
  with \<open>i < n\<close> have "unat i + 1 < 2 ^ 64"
    by (simp add: word_less_nat_alt)
  then have "unat (i + 1) = Suc (unat i)"
    by (simp add: unat_word_ariths)
  with \<open>i < n\<close> show "((i + 1, n, headers @ [x1], y), i, n, headers, source)
      \<in> measure (\<lambda>(i, n, headers, source). unat n - unat i)"
    by (simp add: word_less_nat_alt)
qed

declare NextVarBytes_loop.simps [simp del]

record SyncBlockHeaderParam =
  ChainID :: uint64
  Address :: Address
  Headers :: "byte list list"

definition SyncBlockHeaderParam_Serialization ::
  "SyncBlockHeaderParam \<Rightarrow> ZeroCopySink \<Rightarrow> ZeroCopySink" where
  "SyncBlockHeaderParam_Serialization this sink =
     fold WriteVarBytes (Headers this)
       (WriteUint64 (of_nat (length (Headers this)))
         (WriteAddress (SyncBlockHeaderParam.Address this)
           (WriteUint64 (SyncBlockHeaderParam.ChainID this) sink)))"

definition SyncBlockHeaderParam_Deserialization ::
  "SyncBlockHeaderParam \<Rightarrow> ZeroCopySource \<Rightarrow>
   fmt_error option \<times> SyncBlockHeaderParam \<times> ZeroCopySource" where
  "SyncBlockHeaderParam_Deserialization this source =
     (case NextUint64 source of
        ((chainID, eof), source1) \<Rightarrow>
          if eof then (Some (Errorf ''SyncGenesisHeaderParam deserialize chainID error''), this, source1)
          else
     (case NextAddress source1 of
        ((address, eof), source2) \<Rightarrow>
          if eof then (Some (Errorf ''utils.DecodeAddress, deserialize address error''), this, source2)
          else
     (case NextUint64 source2 of
        ((n, eof), source3) \<Rightarrow>
          if eof then (Some (Errorf ''utils.DecodeVarUint, deserialize header count error''), this, source3)
          else
     (case NextVarBytes_loop 0 n [] source3 of
        (eof, headers, source4) \<Rightarrow>
          if eof then (Some (Errorf ''utils.DecodeVarBytes, deserialize header error''), this, source4)
          else (None,
                this\<lparr>SyncBlockHeaderParam.ChainID := chainID,
                     SyncBlockHeaderParam.Address := address,
                     Headers := headers\<rparr>,
                source4)))))"

record SyncCrossChainMsgParam =
  ChainID :: uint64
  Address :: Address
  CrossChainMsgs :: "byte list list"

definition SyncCrossChainMsgParam_Serialization ::
  "SyncCrossChainMsgParam \<Rightarrow> ZeroCopySink \<Rightarrow> ZeroCopySink" where
  "SyncCrossChainMsgParam_Serialization this sink =
     fold WriteVarBytes (CrossChainMsgs this)
       (WriteUint64 (of_nat (length (CrossChainMsgs this)))
         (WriteAddress (SyncCrossChainMsgParam.Address this)
           (WriteUint64 (SyncCrossChainMsgParam.ChainID this) sink)))"

definition SyncCrossChainMsgParam_Deserialization ::
  "SyncCrossChainMsgParam \<Rightarrow> ZeroCopySource \<Rightarrow>
   fmt_error option \<times> SyncCrossChainMsgParam \<times> ZeroCopySource" where
  "SyncCrossChainMsgParam_Deserialization this source =
     (case NextUint64 source of
        ((chainID, eof), source1) \<Rightarrow>
          if eof then (Some (Errorf ''SyncGenesisHeaderParam deserialize chainID error''), this, source1)
          else
     (case NextAddress source1 of
        ((address, eof), source2) \<Rightarrow>
          if eof then (Some (Errorf ''utils.DecodeAddress, deserialize address error''), this, source2)
          else
     (case NextUint64 source2 of
        ((n, eof), source3) \<Rightarrow>
          if eof then (Some (Errorf ''utils.DecodeVarUint, deserialize header count error''), this, source3)
          else
     (case NextVarBytes_loop 0 n [] source3 of
        (eof, crossChainMsgs, source4) \<Rightarrow>
          if eof then (Some (Errorf ''utils.DecodeVarBytes, deserialize crossChainMsg error''), this, source4)
          else (None,
                this\<lparr>SyncCrossChainMsgParam.ChainID := chainID,
                     SyncCrossChainMsgParam.Address := address,
                     CrossChainMsgs := crossChainMsgs\<rparr>,
                source4)))))"

subsection \<open>Notions for reading back what was written\<close>

text \<open>
  The unread part of a source, a source moved on by \<open>k\<close> bytes, and the sources a Go
  program can hold: the offset is within the buffer and the length of the buffer is a
  \<^verbatim>\<open>uint64\<close>. \<open>varuint_bytes\<close> and \<open>varbytes\<close> are the bytes that \<^verbatim>\<open>WriteVarUint\<close> and
  \<^verbatim>\<open>WriteVarBytes\<close> append.
\<close>

definition remaining :: "ZeroCopySource \<Rightarrow> byte list" where
  "remaining source = drop (src_off source) (src_s source)"

definition advance :: "nat \<Rightarrow> ZeroCopySource \<Rightarrow> ZeroCopySource" where
  "advance k source = source\<lparr>src_off := src_off source + k\<rparr>"

definition in_range :: "ZeroCopySource \<Rightarrow> bool" where
  "in_range source \<longleftrightarrow>
     src_off source \<le> length (src_s source) \<and> length (src_s source) < 2 ^ 64"

definition varuint_bytes :: "uint64 \<Rightarrow> byte list" where
  "varuint_bytes v = sink_buf (WriteVarUint v NewZeroCopySink)"

definition varbytes :: "byte list \<Rightarrow> byte list" where
  "varbytes data = sink_buf (WriteVarBytes data NewZeroCopySink)"

subsection \<open>Example parameters and truncated sources\<close>

definition genesis_param :: SyncGenesisHeaderParam where
  "genesis_param = \<lparr>SyncGenesisHeaderParam.ChainID = 258, GenesisHeader = [7, 8, 9]\<rparr>"

definition header_param :: SyncBlockHeaderParam where
  "header_param =
     \<lparr>SyncBlockHeaderParam.ChainID = 258, SyncBlockHeaderParam.Address = replicate 20 7,
      Headers = [[1, 2, 3], [], [9]]\<rparr>"

definition msg_param :: SyncCrossChainMsgParam where
  "msg_param =
     \<lparr>SyncCrossChainMsgParam.ChainID = 77, SyncCrossChainMsgParam.Address = replicate 20 1,
      CrossChainMsgs = [[4, 5]]\<rparr>"

definition short_genesis :: "byte list" where
  "short_genesis = [1, 0, 0, 0, 0, 0, 0, 0] @ [5, 1, 2]"

definition short_list :: "byte list" where
  "short_list =
     [1, 0, 0, 0, 0, 0, 0, 0] @
     [3, 3, 3, 3, 3, 3, 3, 3, 3, 3, 3, 3, 3, 3, 3, 3, 3, 3, 3, 3] @
     [2, 0, 0, 0, 0, 0, 0, 0] @ [1, 170] @ [5, 1, 2]"

section \<open>Properties of the event handling\<close>

subsection \<open>Timeouts\<close>

text \<open>
  C1. On a timeout the core starts a new round with exactly the current round plus one:
  \<^verbatim>\<open>handleTimeoutMsg\<close> passes \<open>Round (current c) + 1\<close> to \<^verbatim>\<open>startNewRound\<close>, and the loop does so
  for every timeout it receives, whatever the core's state (and so its phase) is.
\<close>

theorem handleTimeoutMsg_next_round:
  "handleTimeoutMsg ops c = startNewRound ops (Round (current c) + 1) c
   \<and> handleEvents ops (TimeoutChan True # ss) c =
       handleEvents ops ss (startNewRound ops (Round (current c) + 1) c)"
  by (simp add: handleTimeoutMsg_def handleEvents_select_def)

subsection \<open>Evaluating the instance\<close>

lemma decode_payloads:
  "FromPayload (round_ops payloads) [9] core0 = Inl (errForeign ''undecodable payload'')"
  "FromPayload (round_ops payloads) [1] core0 = Inr msg_future"
  "FromPayload (round_ops payloads) [3] core0 = Inr msg_stranger"
  by (simp_all add: round_ops_def table_decoder_def payloads_def)

lemma core0_signers:
  "snd (GetByAddress (valSet core0) (message.Address msg_stranger)) = None"
  "snd (GetByAddress (valSet core0) (message.Address msg_future)) = Some addr_A"
  by (simp_all add: core0_def msg_stranger_def msg_future_def addr_A_def addr_B_def)

lemma fixture_codes:
  "Code msg_current = MsgTypePrepare"
  "Code msg_unknown \<notin> {MsgTypeNewView, MsgTypePrepare, MsgTypePrepareVote, MsgTypePreCommit,
                   MsgTypePreCommitVote, MsgTypeCommit, MsgTypeCommitVote}"
  "Code msg_future = MsgTypePrepareVote"
  by (simp_all add: msg_current_def msg_unknown_def msg_future_def)

lemma future_vote: "handlePrepareVote (round_ops payloads) msg_future addr_A core0 = (Some errFutureMessage, core0)"
  by (simp add: round_ops_def round_rule_def msg_future_def core0_def)

lemma round_ops_round_kept: "round_kept (round_ops tab)"
  by (simp add: round_kept_def round_ops_def round_rule_def set_round_def)

subsection \<open>The round\<close>

lemma testBacklog_round:
  assumes "round_kept ops" and "Round (current c) \<le> Round (current (snd r))"
  shows "Round (current c) \<le> Round (current (snd (testBacklog ops msg src r)))"
proof (cases r)
  case (Pair err c1)
  have "Round (current c1) \<le> Round (current (storeBacklog ops msg src c1))"
    using assms(1) by (simp add: round_kept_def)
  with assms(2) Pair show ?thesis
    by (simp add: testBacklog_def)
qed

lemma handleCheckedMsg_round:
  assumes "round_kept ops"
  shows "Round (current c) \<le> Round (current (snd (handleCheckedMsg ops msg src c)))"
proof (cases "Code msg")
  case (MsgTypeOther n)
  then show ?thesis by (simp add: handleCheckedMsg_def)
qed (use assms in \<open>simp_all add: handleCheckedMsg_def testBacklog_round round_kept_def\<close>)

lemma handleMsg_round:
  assumes "round_kept ops"
  shows "Round (current c) \<le> Round (current (snd (handleMsg ops payload c)))"
  using handleCheckedMsg_round [OF assms]
  by (simp add: handleMsg_def split: sum.splits option.splits)

lemma handleTimeoutMsg_round:
  assumes "round_kept ops"
  shows "Round (current c) \<le> Round (current (handleTimeoutMsg ops c))"
proof -
  from assms have "\<forall>r c. Round (current c) \<le> r \<longrightarrow>
      Round (current c) \<le> Round (current (startNewRound ops r c))"
    by (simp add: round_kept_def)
  then show ?thesis
    by (simp add: handleTimeoutMsg_def)
qed

lemma handleEvents_select_round:
  assumes "round_kept ops" and "handleEvents_select ops s c = Some c'"
  shows "Round (current c) \<le> Round (current c')"
proof (cases s)
  case (EventsChan evo)
  show ?thesis
  proof (cases evo)
    case None
    with EventsChan assms(2) show ?thesis by (simp add: handleEvents_select_def)
  next
    case (Some ev)
    show ?thesis
    proof (cases ev)
      case (RequestEvent p)
      with EventsChan Some assms show ?thesis
        by (auto simp: handleEvents_select_def round_kept_def)
    next
      case (MessageEvent payload)
      with EventsChan Some assms(2) handleMsg_round [OF assms(1)] show ?thesis
        by (auto simp: handleEvents_select_def)
    next
      case (backlogEvent msg src)
      with EventsChan Some assms(2) handleCheckedMsg_round [OF assms(1)] show ?thesis
        by (auto simp: handleEvents_select_def)
    qed
  qed
next
  case (TimeoutChan ok)
  with assms(2) handleTimeoutMsg_round [OF assms(1)] show ?thesis
    by (auto simp: handleEvents_select_def split: if_splits)
next
  case (FinalCommittedChan ok)
  with assms show ?thesis
    by (auto simp: handleEvents_select_def round_kept_def split: if_splits)
qed

lemma handleEvents_round_kept:
  assumes "round_kept ops"
  shows "Round (current c) \<le> Round (current (snd (handleEvents ops ss c)))"
proof (induction ss arbitrary: c)
  case Nil
  show ?case by simp
next
  case (Cons s ss)
  show ?case
  proof (cases "handleEvents_select ops s c")
    case None
    then show ?thesis by simp
  next
    case (Some c')
    have "Round (current c) \<le> Round (current c')"
      by (rule handleEvents_select_round [OF assms Some])
    also have "\<dots> \<le> Round (current (snd (handleEvents ops ss c')))"
      by (rule Cons.IH)
    finally show ?thesis using Some by simp
  qed
qed

lemma round_ops_step:
  "(case handleEvents_select (round_ops tab) s c of
      None \<Rightarrow> True
    | Some c' \<Rightarrow> Round (current c') = Round (current c)
               \<or> Round (current c') = Round (current c) + 1)"
proof (cases s)
  case (EventsChan evo)
  show ?thesis
  proof (cases evo)
    case None
    with EventsChan show ?thesis by (simp add: handleEvents_select_def)
  next
    case (Some ev)
    show ?thesis
    proof (cases ev)
      case (RequestEvent p)
      with EventsChan Some show ?thesis
        by (simp add: handleEvents_select_def round_ops_def)
    next
      case (MessageEvent payload)
      with EventsChan Some show ?thesis
        by (simp add: handleEvents_select_def handleMsg_def handleCheckedMsg_def
              testBacklog_def round_ops_def round_rule_def table_decoder_def
              split: option.splits MsgType.splits)
    next
      case (backlogEvent msg src)
      with EventsChan Some show ?thesis
        by (simp add: handleEvents_select_def handleCheckedMsg_def
              testBacklog_def round_ops_def round_rule_def
              split: MsgType.splits)
    qed
  qed
next
  case (TimeoutChan ok)
  then show ?thesis
    by (simp add: handleEvents_select_def handleTimeoutMsg_def round_ops_def set_round_def)
next
  case (FinalCommittedChan ok)
  then show ?thesis
    by (simp add: handleEvents_select_def round_ops_def set_round_def)
qed

lemma example_run:
  "Round (current (snd (handleEvents (round_ops payloads)
         [EventsChan (Some (MessageEvent [1])), TimeoutChan True, FinalCommittedChan True,
          EventsChan (Some (RequestEvent 7)), EventsChan None] core0))) = 5"
  by (simp add: handleEvents_select_def handleMsg_def handleCheckedMsg_def testBacklog_def
        handleTimeoutMsg_def round_ops_def round_rule_def set_round_def table_decoder_def
        payloads_def msg_future_def core0_def addr_A_def)

text \<open>
  C2. Whatever sequence of receives the loop processes (requests, messages, backlog
  replays, timeouts, final commits) and whatever core it starts from, the round of the
  core it has reached is not below the round it started from; and each single receive
  leaves the round as it was or adds one to it. The loop and the handlers it calls are
  those of handler.go; the methods declared in other files are the spec's model of them,
  \<open>round_ops\<close>. \<^verbatim>\<open>Start\<close>, which asks \<^verbatim>\<open>startNewRound\<close> for round 0, is not a receive of the
  loop.
\<close>

theorem currentRound_monotone:
  "(case handleEvents_select (round_ops tab) s c of
      None \<Rightarrow> True
    | Some c' \<Rightarrow> Round (current c') = Round (current c)
               \<or> Round (current c') = Round (current c) + 1)
   \<and> Round (current c) \<le> Round (current (snd (handleEvents (round_ops tab) ss c)))"
  using round_ops_step [where tab = tab and s = s and c = c]
    handleEvents_round_kept [OF round_ops_round_kept [of tab], where c = c and ss = ss]
  by simp

theorem currentRound_monotone_witness:
  "Round (current core0) = 3
   \<and> Round (current core0) \<le>
       Round (current (snd (handleEvents (round_ops payloads)
         [EventsChan (Some (MessageEvent [1])), TimeoutChan True, FinalCommittedChan True,
          EventsChan (Some (RequestEvent 7)), EventsChan None] core0)))
   \<and> Round (current (snd (handleEvents (round_ops payloads)
         [EventsChan (Some (MessageEvent [1])), TimeoutChan True, FinalCommittedChan True,
          EventsChan (Some (RequestEvent 7)), EventsChan None] core0))) = 5"
proof (intro conjI)
  show "Round (current core0) = 3"
    by (simp add: core0_def)
  show "Round (current core0) \<le>
       Round (current (snd (handleEvents (round_ops payloads)
         [EventsChan (Some (MessageEvent [1])), TimeoutChan True, FinalCommittedChan True,
          EventsChan (Some (RequestEvent 7)), EventsChan None] core0)))"
    by (rule currentRound_monotone [THEN conjunct2])
  show "Round (current (snd (handleEvents (round_ops payloads)
         [EventsChan (Some (MessageEvent [1])), TimeoutChan True, FinalCommittedChan True,
          EventsChan (Some (RequestEvent 7)), EventsChan None] core0))) = 5"
    by (rule example_run)
qed

subsection \<open>Incoming messages\<close>

text \<open>
  C3. \<^verbatim>\<open>handleMsg\<close> decodes first and returns the decoder's error with the core untouched;
  then it resolves the sender, and returns \<open>errInvalidSigner\<close> with the core untouched when
  the address resolves to no validator: no handler has run and nothing was stored, whatever
  the handlers and \<^verbatim>\<open>storeBacklog\<close> are. Only a message that passed both reaches
  \<^verbatim>\<open>handleCheckedMsg\<close>.
\<close>

theorem handleMsg_checks:
  "(FromPayload ops payload c = Inl err \<longrightarrow> handleMsg ops payload c = (Some err, c))
   \<and> (FromPayload ops payload c = Inr msg \<longrightarrow>
        snd (GetByAddress (valSet c) (message.Address msg)) = None \<longrightarrow>
        handleMsg ops payload c = (Some errInvalidSigner, c))
   \<and> (FromPayload ops payload c = Inr msg \<longrightarrow>
        snd (GetByAddress (valSet c) (message.Address msg)) = Some src \<longrightarrow>
        handleMsg ops payload c = handleCheckedMsg ops msg src c)"
  by (simp add: handleMsg_def)

theorem handleMsg_checks_witness:
  "handleMsg (round_ops payloads) [9] core0 = (Some (errForeign ''undecodable payload''), core0)
   \<and> handleMsg (round_ops payloads) [3] core0 = (Some errInvalidSigner, core0)
   \<and> handleMsg (round_ops payloads) [1] core0 =
       handleCheckedMsg (round_ops payloads) msg_future addr_A core0"
proof (intro conjI)
  show "handleMsg (round_ops payloads) [9] core0 = (Some (errForeign ''undecodable payload''), core0)"
    by (rule handleMsg_checks [THEN conjunct1, rule_format, OF decode_payloads(1)])
  show "handleMsg (round_ops payloads) [3] core0 = (Some errInvalidSigner, core0)"
    by (rule handleMsg_checks [THEN conjunct2, THEN conjunct1, rule_format,
          OF decode_payloads(3) core0_signers(1)])
  show "handleMsg (round_ops payloads) [1] core0 =
        handleCheckedMsg (round_ops payloads) msg_future addr_A core0"
    by (rule handleMsg_checks [THEN conjunct2, THEN conjunct2, rule_format,
          OF decode_payloads(2) core0_signers(2)])
qed

text \<open>
  C4, as amended. When the handler of the message's code returns \<open>errFutureMessage\<close>,
  \<^verbatim>\<open>handleCheckedMsg\<close> stores the message with its resolved signer in the backlog, on the
  core the handler left, and returns \<open>errFutureMessage\<close> to its caller. The error goes no
  further than the loop: \<^verbatim>\<open>handleEvents\<close> drops what \<^verbatim>\<open>handleCheckedMsg\<close> and \<^verbatim>\<open>handleMsg\<close>
  return and goes on with the core they left.
\<close>

theorem handleCheckedMsg_future:
  "(Code msg = MsgTypeNewView \<longrightarrow> handleNewView ops msg src c = (Some errFutureMessage, c') \<longrightarrow>
      handleCheckedMsg ops msg src c = (Some errFutureMessage, storeBacklog ops msg src c'))
   \<and> (Code msg = MsgTypePrepare \<longrightarrow> handlePrepare ops msg src c = (Some errFutureMessage, c') \<longrightarrow>
      handleCheckedMsg ops msg src c = (Some errFutureMessage, storeBacklog ops msg src c'))
   \<and> (Code msg = MsgTypePrepareVote \<longrightarrow> handlePrepareVote ops msg src c = (Some errFutureMessage, c') \<longrightarrow>
      handleCheckedMsg ops msg src c = (Some errFutureMessage, storeBacklog ops msg src c'))
   \<and> (Code msg = MsgTypePreCommit \<longrightarrow> handlePreCommit ops msg src c = (Some errFutureMessage, c') \<longrightarrow>
      handleCheckedMsg ops msg src c = (Some errFutureMessage, storeBacklog ops msg src c'))
   \<and> (Code msg = MsgTypePreCommitVote \<longrightarrow> handlePreCommitVote ops msg src c = (Some errFutureMessage, c') \<longrightarrow>
      handleCheckedMsg ops msg src c = (Some errFutureMessage, storeBacklog ops msg src c'))
   \<and> (Code msg = MsgTypeCommit \<longrightarrow> handleCommit ops msg src c = (Some errFutureMessage, c') \<longrightarrow>
      handleCheckedMsg ops msg src c = (Some errFutureMessage, storeBacklog ops msg src c'))
   \<and> (Code msg = MsgTypeCommitVote \<longrightarrow> handleCommitVote ops msg src c = (Some errFutureMessage, c') \<longrightarrow>
      handleCheckedMsg ops msg src c = (Some errFutureMessage, storeBacklog ops msg src c'))
   \<and> handleEvents ops (EventsChan (Some (backlogEvent msg src)) # ss) c =
       handleEvents ops ss (snd (handleCheckedMsg ops msg src c))
   \<and> handleEvents ops (EventsChan (Some (MessageEvent payload)) # ss) c =
       handleEvents ops ss (snd (handleMsg ops payload c))"
  by (simp add: handleEvents_select_def) (simp add: handleCheckedMsg_def testBacklog_def)

theorem handleCheckedMsg_future_witness:
  "handleCheckedMsg (round_ops payloads) msg_future addr_A core0 =
     (Some errFutureMessage, storeBacklog (round_ops payloads) msg_future addr_A core0)
   \<and> backlog (storeBacklog (round_ops payloads) msg_future addr_A core0) = [(msg_future, addr_A)]"
proof (intro conjI)
  show "handleCheckedMsg (round_ops payloads) msg_future addr_A core0 =
     (Some errFutureMessage, storeBacklog (round_ops payloads) msg_future addr_A core0)"
    by (rule handleCheckedMsg_future [THEN conjunct2, THEN conjunct2, THEN conjunct1, rule_format,
          OF fixture_codes(3) future_vote])
  show "backlog (storeBacklog (round_ops payloads) msg_future addr_A core0) = [(msg_future, addr_A)]"
    by (simp add: round_ops_def core0_def)
qed

text \<open>
  C4, as stated, fails: \<^verbatim>\<open>handleCheckedMsg\<close> does return an error for a future message, and
  \<^verbatim>\<open>handleMsg\<close> passes it on.
\<close>

theorem future_message_error_counterexample:
  "fst (handlePrepareVote (round_ops payloads) msg_future addr_A core0) = Some errFutureMessage
   \<and> fst (handleCheckedMsg (round_ops payloads) msg_future addr_A core0) \<noteq> None
   \<and> fst (handleMsg (round_ops payloads) [1] core0) = Some errFutureMessage"
  by (simp add: handleMsg_def handleCheckedMsg_def testBacklog_def round_ops_def round_rule_def
        table_decoder_def payloads_def msg_future_def core0_def addr_A_def)



text \<open>
  C6. \<^verbatim>\<open>handleCheckedMsg\<close> gives the message to the one handler of its code (and passes the
  handler's result through \<^verbatim>\<open>testBacklog\<close>); for a code that is none of the seven it returns
  \<open>errInvalidMessage\<close> and leaves the core as it was, so no handler ran.
\<close>

theorem handleCheckedMsg_dispatch:
  "(Code msg = MsgTypeNewView \<longrightarrow>
      handleCheckedMsg ops msg src c = testBacklog ops msg src (handleNewView ops msg src c))
   \<and> (Code msg = MsgTypePrepare \<longrightarrow>
      handleCheckedMsg ops msg src c = testBacklog ops msg src (handlePrepare ops msg src c))
   \<and> (Code msg = MsgTypePrepareVote \<longrightarrow>
      handleCheckedMsg ops msg src c = testBacklog ops msg src (handlePrepareVote ops msg src c))
   \<and> (Code msg = MsgTypePreCommit \<longrightarrow>
      handleCheckedMsg ops msg src c = testBacklog ops msg src (handlePreCommit ops msg src c))
   \<and> (Code msg = MsgTypePreCommitVote \<longrightarrow>
      handleCheckedMsg ops msg src c = testBacklog ops msg src (handlePreCommitVote ops msg src c))
   \<and> (Code msg = MsgTypeCommit \<longrightarrow>
      handleCheckedMsg ops msg src c = testBacklog ops msg src (handleCommit ops msg src c))
   \<and> (Code msg = MsgTypeCommitVote \<longrightarrow>
      handleCheckedMsg ops msg src c = testBacklog ops msg src (handleCommitVote ops msg src c))
   \<and> (Code msg \<notin> {MsgTypeNewView, MsgTypePrepare, MsgTypePrepareVote, MsgTypePreCommit,
                   MsgTypePreCommitVote, MsgTypeCommit, MsgTypeCommitVote} \<longrightarrow>
      handleCheckedMsg ops msg src c = (Some errInvalidMessage, c))"
  by (cases "Code msg") (simp_all add: handleCheckedMsg_def)

theorem handleCheckedMsg_dispatch_witness:
  "handleCheckedMsg (round_ops payloads) msg_current addr_A core0 =
     testBacklog (round_ops payloads) msg_current addr_A
       (handlePrepare (round_ops payloads) msg_current addr_A core0)
   \<and> handleCheckedMsg (round_ops payloads) msg_unknown addr_A core0 =
       (Some errInvalidMessage, core0)"
proof (intro conjI)
  show "handleCheckedMsg (round_ops payloads) msg_current addr_A core0 =
     testBacklog (round_ops payloads) msg_current addr_A
       (handlePrepare (round_ops payloads) msg_current addr_A core0)"
    by (rule handleCheckedMsg_dispatch [THEN conjunct2, THEN conjunct1, rule_format,
          OF fixture_codes(1)])
  show "handleCheckedMsg (round_ops payloads) msg_unknown addr_A core0 =
       (Some errInvalidMessage, core0)"
    by (rule handleCheckedMsg_dispatch [THEN conjunct2, THEN conjunct2, THEN conjunct2,
          THEN conjunct2, THEN conjunct2, THEN conjunct2, THEN conjunct2, rule_format,
          OF fixture_codes(2)])
qed

subsection \<open>The loop\<close>

lemma handleEvents_Returned: "(fst (handleEvents ops ss c) = Returned) = list_ex closed ss"
  by (induction ss arbitrary: c)
     (auto simp: closed_def handleEvents_select_def
           split: Select.splits option.splits Event.splits if_splits)

text \<open>
  C7. After a request, a message or a backlog replay the loop takes the next receive with
  the core the handler left, whatever error the handler returned: the error is dropped.
  The loop has returned exactly when one of its receives found a channel closed.
\<close>

theorem handleEvents_never_stops_on_error:
  "handleEvents ops (EventsChan (Some (RequestEvent p)) # ss) c =
     handleEvents ops ss (snd (handleRequest ops \<lparr>Proposal = p\<rparr> c))
   \<and> handleEvents ops (EventsChan (Some (MessageEvent payload)) # ss) c =
       handleEvents ops ss (snd (handleMsg ops payload c))
   \<and> handleEvents ops (EventsChan (Some (backlogEvent msg src)) # ss) c =
       handleEvents ops ss (snd (handleCheckedMsg ops msg src c))
   \<and> (fst (handleEvents ops ss c) = Returned) = list_ex closed ss"
  by (simp add: handleEvents_Returned) (simp add: handleEvents_select_def)

subsection \<open>Teardown\<close>

lemma subscribed_Unsubscribe: "subscribed (Unsubscribe s m) = subscribed m - {s}"
  by (auto simp: subscribed_def Unsubscribe_def)

text \<open>
  C8. With its three subscriptions in place, \<^verbatim>\<open>Stop\<close> returns nil, leaves the timer stopped
  and has unsubscribed all three: the general one, the timeout one and the final-commit
  one. And the three subscriptions that \<^verbatim>\<open>subscribeEvents\<close> creates are the ones that
  \<^verbatim>\<open>unsubscribeEvents\<close> removes from the mux.
\<close>

theorem Stop_teardown:
  "(events c = Some e \<longrightarrow> timeoutSub c = Some t \<longrightarrow> finalCommittedSub c = Some f \<longrightarrow>
      (\<exists>c'. Stop c = Inr (None, c') \<and> \<not> timer c'
            \<and> subscribed (mux c') = subscribed (mux c) - {e, t, f}))
   \<and> (\<exists>e t f c'. events (subscribeEvents c) = Some e
            \<and> timeoutSub (subscribeEvents c) = Some t
            \<and> finalCommittedSub (subscribeEvents c) = Some f
            \<and> subscribed (mux (subscribeEvents c)) = subscribed (mux c) \<union> {e, t, f}
            \<and> unsubscribeEvents (subscribeEvents c) = Inr c'
            \<and> subscribed (mux c') = subscribed (mux c) - {e, t, f})"
proof (intro conjI impI)
  assume "events c = Some e" "timeoutSub c = Some t" "finalCommittedSub c = Some f"
  then show "\<exists>c'. Stop c = Inr (None, c') \<and> \<not> timer c'
            \<and> subscribed (mux c') = subscribed (mux c) - {e, t, f}"
    by (auto simp: Stop_def stopTimer_def unsubscribeEvents_def subscribed_Unsubscribe)
next
  show "\<exists>e t f c'. events (subscribeEvents c) = Some e
            \<and> timeoutSub (subscribeEvents c) = Some t
            \<and> finalCommittedSub (subscribeEvents c) = Some f
            \<and> subscribed (mux (subscribeEvents c)) = subscribed (mux c) \<union> {e, t, f}
            \<and> unsubscribeEvents (subscribeEvents c) = Inr c'
            \<and> subscribed (mux c') = subscribed (mux c) - {e, t, f}"
    by (simp add: subscribeEvents_def Subscribe_def unsubscribeEvents_def subscribed_Unsubscribe
          split_def Let_def)
       (auto simp: subscribed_def)
qed

theorem Stop_teardown_witness:
  "\<exists>c'. Stop (subscribeEvents core0) = Inr (None, c') \<and> \<not> timer c'
        \<and> subscribed (mux c') = {}"
proof -
  have e: "events (subscribeEvents core0) = Some 0"
    and t: "timeoutSub (subscribeEvents core0) = Some 1"
    and f: "finalCommittedSub (subscribeEvents core0) = Some 2"
    and m: "subscribed (mux (subscribeEvents core0)) = {0, 1, 2}"
    by (auto simp: subscribeEvents_def Subscribe_def core0_def subscribed_def)
  from Stop_teardown [of "subscribeEvents core0" 0 1 2, THEN conjunct1, rule_format, OF e t f]
  show ?thesis by (simp add: m)
qed

section \<open>Properties of the header-sync parameters\<close>

subsection \<open>Little-endian integers\<close>

lemma length_putLE: "length (putLE k v) = k"
  by (induction k arbitrary: v) simp_all

lemma getLE_putLE: "getLE (putLE k v) = v mod 256 ^ k"
proof (induction k arbitrary: v)
  case 0
  show ?case by simp
next
  case (Suc k)
  have "unat (of_nat (v mod 256) :: byte) = v mod 256"
    by (simp add: unat_of_nat)
  then have "getLE (putLE (Suc k) v) = v mod 256 + 256 * (v div 256 mod 256 ^ k)"
    by (simp add: Suc.IH)
  also have "\<dots> = v mod 256 ^ Suc k"
    by (simp add: mod_mult2_eq)
  finally show ?case .
qed

lemma putLE_8:
  "putLE 8 v =
     [of_nat (v mod 256), of_nat (v div 256 mod 256), of_nat (v div 256 div 256 mod 256),
      of_nat (v div 256 div 256 div 256 mod 256),
      of_nat (v div 256 div 256 div 256 div 256 mod 256),
      of_nat (v div 256 div 256 div 256 div 256 div 256 mod 256),
      of_nat (v div 256 div 256 div 256 div 256 div 256 div 256 mod 256),
      of_nat (v div 256 div 256 div 256 div 256 div 256 div 256 div 256 mod 256)]"
proof -
  have "(8::nat) = Suc (Suc (Suc (Suc (Suc (Suc (Suc (Suc 0)))))))"
    by simp
  then show ?thesis
    by (simp only: putLE.simps)
qed

lemma unat_ucast_small:
  fixes v :: "'a::len word"
  assumes "unat v < 2 ^ LENGTH('b::len)"
  shows "unat (ucast v :: 'b word) = unat v"
  by (subst unsigned_ucast_eq) (simp add: take_bit_nat_eq_self assms)

lemma ucast_ucast_small:
  fixes v :: "'a::len word"
  assumes "unat v < 2 ^ LENGTH('b::len)"
  shows "ucast (ucast v :: 'b word) = v"
proof -
  have "unat (ucast (ucast v :: 'b word) :: 'a word) = take_bit LENGTH('a) (unat (ucast v :: 'b word))"
    by (rule unsigned_ucast_eq)
  also have "\<dots> = take_bit LENGTH('a) (unat v)"
    by (simp only: unat_ucast_small [OF assms])
  also have "\<dots> = unat v"
    by (rule take_bit_nat_eq_self) (rule unsigned_less)
  finally have "unat (ucast (ucast v :: 'b word) :: 'a word) = unat v" .
  then show ?thesis
    by (simp add: word_unat_eq_iff)
qed

lemma unat_add_of_nat:
  fixes i :: uint64
  assumes "unat i + k < 2 ^ 64"
  shows "unat (i + of_nat k) = unat i + k"
proof -
  have "k < 2 ^ 64" using assms by simp
  then have "unat (of_nat k :: uint64) = k"
    by (simp add: unat_of_nat)
  with assms show ?thesis
    by (simp add: unat_word_ariths)
qed

subsection \<open>What the sink holds\<close>

lemma WriteVarUint_buf: "sink_buf (WriteVarUint v sink) = sink_buf sink @ varuint_bytes v"
  by (simp add: varuint_bytes_def WriteVarUint_def WriteBytes_def NewZeroCopySink_def)

lemma WriteVarBytes_buf: "sink_buf (WriteVarBytes data sink) = sink_buf sink @ varbytes data"
  by (simp add: varbytes_def WriteVarBytes_def WriteBytes_def WriteVarUint_buf NewZeroCopySink_def)

lemma varbytes_eq: "varbytes data = varuint_bytes (of_nat (length data)) @ data"
  by (simp add: varbytes_def WriteVarBytes_def WriteBytes_def WriteVarUint_buf NewZeroCopySink_def)

lemma varbytes_length: "length data \<le> length (varbytes data)"
  by (simp add: varbytes_eq)

lemma varbytes_nonempty: "0 < length (varbytes data)"
  by (simp add: varbytes_eq varuint_bytes_def WriteVarUint_def WriteBytes_def NewZeroCopySink_def)

lemma WriteUint64_buf: "sink_buf (WriteUint64 v sink) = sink_buf sink @ putLE 8 (unat v)"
  by (simp add: WriteUint64_def WriteBytes_def)

lemma WriteAddress_buf: "sink_buf (WriteAddress a sink) = sink_buf sink @ a"
  by (simp add: WriteAddress_def WriteBytes_def)

lemma fold_WriteVarBytes_buf:
  "sink_buf (fold WriteVarBytes hs sink) = sink_buf sink @ concat (map varbytes hs)"
  by (induction hs arbitrary: sink) (simp_all add: WriteVarBytes_buf)

lemma length_concat_varbytes: "length hs \<le> length (concat (map varbytes hs))"
proof (induction hs)
  case Nil
  show ?case by simp
next
  case (Cons h hs)
  with varbytes_nonempty [of h] show ?case
    by (cases "varbytes h") auto
qed

subsection \<open>Reading\<close>

lemma remaining_length:
  assumes "in_range source" and "remaining source = xs @ rest"
  shows "src_off source + length xs \<le> length (src_s source)"
proof -
  have "length (remaining source) = length (src_s source) - src_off source"
    by (simp add: remaining_def)
  then have "length xs \<le> length (src_s source) - src_off source"
    by (simp add: assms(2))
  moreover have "src_off source \<le> length (src_s source)"
    using assms(1) by (simp add: in_range_def)
  ultimately show ?thesis
    by arith
qed

lemma advance_in_range:
  assumes "in_range source" and "remaining source = xs @ rest"
  shows "in_range (advance (length xs) source)"
  using remaining_length [OF assms] assms(1)
  by (simp add: in_range_def advance_def)

lemma advance_remaining:
  assumes "remaining source = xs @ rest"
  shows "remaining (advance (length xs) source) = rest"
proof -
  have "drop (src_off source + length xs) (src_s source) = drop (length xs) (remaining source)"
    by (simp add: remaining_def add.commute)
  with assms show ?thesis
    by (simp add: remaining_def advance_def)
qed

lemma advance_advance: "advance a (advance b source) = advance (b + a) source"
  by (simp add: advance_def add.assoc)

lemma NextBytes_read:
  assumes "in_range source" and "remaining source = xs @ rest" and "unat n = length xs"
  shows "NextBytes n source = ((xs, False), advance (length xs) source)"
proof -
  have le: "src_off source + length xs \<le> length (src_s source)"
    by (rule remaining_length [OF assms(1,2)])
  moreover have "length (src_s source) < 2 ^ 64"
    using assms(1) by (simp add: in_range_def)
  moreover have "take (length xs) (drop (src_off source) (src_s source)) = xs"
    using assms(2) by (simp add: remaining_def)
  ultimately show ?thesis
    by (simp add: NextBytes_def Let_def assms(3) advance_def)
qed

lemma NextByte_read:
  assumes "in_range source" and "remaining source = b # rest"
  shows "NextByte source = ((b, False), advance 1 source)"
proof -
  have "src_off source + length [b] \<le> length (src_s source)"
    by (rule remaining_length [OF assms(1)]) (simp add: assms(2))
  then have lt: "src_off source < length (src_s source)"
    by simp
  then have "src_s source ! src_off source = hd (remaining source)"
    by (simp add: remaining_def hd_drop_conv_nth)
  with lt show ?thesis
    by (simp add: NextByte_def assms(2) advance_def)
qed

lemma NextUint64_read:
  assumes "in_range source" and "remaining source = putLE 8 (unat v) @ rest"
  shows "NextUint64 source = ((v, False), advance 8 source)"
proof -
  have "NextBytes 8 source = ((putLE 8 (unat v), False), advance (length (putLE 8 (unat v))) source)"
    by (rule NextBytes_read [OF assms]) (simp add: length_putLE)
  moreover have "unat v < 2 ^ 64"
    using unsigned_less [of v] by simp
  then have "unat v mod 256 ^ 8 = unat v"
    by simp
  ultimately show ?thesis
    by (simp add: NextUint64_def length_putLE getLE_putLE)
qed

lemma NextUint32_read:
  assumes "in_range source" and "remaining source = putLE 4 (unat v) @ rest"
  shows "NextUint32 source = ((v, False), advance 4 source)"
proof -
  have "NextBytes 4 source = ((putLE 4 (unat v), False), advance (length (putLE 4 (unat v))) source)"
    by (rule NextBytes_read [OF assms]) (simp add: length_putLE)
  moreover have "unat v < 2 ^ 32"
    using unsigned_less [of v] by simp
  then have "unat v mod 256 ^ 4 = unat v"
    by simp
  ultimately show ?thesis
    by (simp add: NextUint32_def length_putLE getLE_putLE)
qed

lemma NextUint16_read:
  assumes "in_range source" and "remaining source = putLE 2 (unat v) @ rest"
  shows "NextUint16 source = ((v, False), advance 2 source)"
proof -
  have "NextBytes 2 source = ((putLE 2 (unat v), False), advance (length (putLE 2 (unat v))) source)"
    by (rule NextBytes_read [OF assms]) (simp add: length_putLE)
  moreover have "unat v < 2 ^ 16"
    using unsigned_less [of v] by simp
  then have "unat v mod 256 ^ 2 = unat v"
    by simp
  ultimately show ?thesis
    by (simp add: NextUint16_def length_putLE getLE_putLE)
qed

lemma advance_0: "advance 0 source = source"
  by (simp add: advance_def)

lemma NextVarUint_read:
  assumes "in_range source" and "remaining source = varuint_bytes v @ rest"
  shows "NextVarUint source = ((v, False), advance (length (varuint_bytes v)) source)"
proof -
  consider (one) "v < 0xFD"
    | (two) "\<not> v < 0xFD" "v \<le> 0xFFFF"
    | (four) "\<not> v < 0xFD" "\<not> v \<le> 0xFFFF" "v \<le> 0xFFFFFFFF"
    | (eight) "\<not> v < 0xFD" "\<not> v \<le> 0xFFFF" "\<not> v \<le> 0xFFFFFFFF"
    by blast
  then show ?thesis
  proof cases
    case one
    then have small: "unat v < 253"
      by (simp add: word_less_nat_alt)
    then have u: "unat (ucast v :: byte) = unat v"
      by (simp add: unat_ucast_small)
    have bytes: "varuint_bytes v = [ucast v]"
      using one by (simp add: varuint_bytes_def WriteVarUint_def WriteBytes_def NewZeroCopySink_def)
    have fb: "NextByte source = ((ucast v, False), advance 1 source)"
      using NextByte_read [OF assms(1), of "ucast v"] by (simp add: assms(2) bytes)
    have ne: "(ucast v :: byte) \<noteq> 0xFD" "(ucast v :: byte) \<noteq> 0xFE" "(ucast v :: byte) \<noteq> 0xFF"
      using small u by (auto simp: word_unat_eq_iff)
    have same: "ucast (ucast v :: byte) = v"
      by (rule ucast_ucast_small) (use small in \<open>simp\<close>)
    show ?thesis
      unfolding NextVarUint_def fb by (simp add: ne same bytes)
  next
    case two
    then have small: "unat v < 2 ^ 16"
      by (simp add: word_le_nat_alt)
    have bytes: "varuint_bytes v = 0xFD # putLE 2 (unat (ucast v :: 16 word))"
      using two by (simp add: varuint_bytes_def WriteVarUint_def WriteBytes_def NewZeroCopySink_def)
    have len: "length (varuint_bytes v) = 3"
      by (simp add: bytes length_putLE)
    have fb: "NextByte source = ((0xFD, False), advance 1 source)"
      using NextByte_read [OF assms(1), of "0xFD"] by (simp add: assms(2) bytes)
    have r1: "remaining (advance (length [0xFD :: byte]) source) = putLE 2 (unat (ucast v :: 16 word)) @ rest"
      by (rule advance_remaining) (simp add: assms(2) bytes)
    have i1: "in_range (advance (length [0xFD :: byte]) source)"
      by (rule advance_in_range [OF assms(1)]) (simp add: assms(2) bytes)
    have "NextUint16 (advance 1 source) = ((ucast v, False), advance 2 (advance 1 source))"
      using NextUint16_read [OF i1 r1] by simp
    moreover have "advance 2 (advance 1 source) = advance 3 source"
      by (simp add: advance_def)
    ultimately have val: "NextUint16 (advance 1 source) = ((ucast v, False), advance 3 source)"
      by (simp only:)
    have same: "ucast (ucast v :: 16 word) = v"
      by (rule ucast_ucast_small) (use small in \<open>simp\<close>)
    show ?thesis
      using val by (simp add: NextVarUint_def fb same len)
  next
    case four
    then have small: "unat v < 2 ^ 32"
      by (simp add: word_le_nat_alt)
    have bytes: "varuint_bytes v = 0xFE # putLE 4 (unat (ucast v :: 32 word))"
      using four by (simp add: varuint_bytes_def WriteVarUint_def WriteBytes_def NewZeroCopySink_def)
    have len: "length (varuint_bytes v) = 5"
      by (simp add: bytes length_putLE)
    have fb: "NextByte source = ((0xFE, False), advance 1 source)"
      using NextByte_read [OF assms(1), of "0xFE"] by (simp add: assms(2) bytes)
    have r1: "remaining (advance (length [0xFE :: byte]) source) = putLE 4 (unat (ucast v :: 32 word)) @ rest"
      by (rule advance_remaining) (simp add: assms(2) bytes)
    have i1: "in_range (advance (length [0xFE :: byte]) source)"
      by (rule advance_in_range [OF assms(1)]) (simp add: assms(2) bytes)
    have "NextUint32 (advance 1 source) = ((ucast v, False), advance 4 (advance 1 source))"
      using NextUint32_read [OF i1 r1] by simp
    moreover have "advance 4 (advance 1 source) = advance 5 source"
      by (simp add: advance_def)
    ultimately have val: "NextUint32 (advance 1 source) = ((ucast v, False), advance 5 source)"
      by (simp only:)
    have same: "ucast (ucast v :: 32 word) = v"
      by (rule ucast_ucast_small) (use small in \<open>simp\<close>)
    show ?thesis
      using val by (simp add: NextVarUint_def fb same len)
  next
    case eight
    have bytes: "varuint_bytes v = 0xFF # putLE 8 (unat v)"
      using eight by (simp add: varuint_bytes_def WriteVarUint_def WriteBytes_def NewZeroCopySink_def)
    have len: "length (varuint_bytes v) = 9"
      by (simp add: bytes length_putLE)
    have fb: "NextByte source = ((0xFF, False), advance 1 source)"
      using NextByte_read [OF assms(1), of "0xFF"] by (simp add: assms(2) bytes)
    have r1: "remaining (advance (length [0xFF :: byte]) source) = putLE 8 (unat (v)) @ rest"
      by (rule advance_remaining) (simp add: assms(2) bytes)
    have i1: "in_range (advance (length [0xFF :: byte]) source)"
      by (rule advance_in_range [OF assms(1)]) (simp add: assms(2) bytes)
    have "NextUint64 (advance 1 source) = ((v, False), advance 8 (advance 1 source))"
      using NextUint64_read [OF i1 r1] by simp
    moreover have "advance 8 (advance 1 source) = advance 9 source"
      by (simp add: advance_def)
    ultimately have val: "NextUint64 (advance 1 source) = ((v, False), advance 9 source)"
      by (simp only:)
    show ?thesis
      using val by (simp add: NextVarUint_def fb len)
  qed
qed

lemma NextVarBytes_read:
  assumes "in_range source" and "remaining source = varbytes data @ rest"
    and "length data < 2 ^ 64"
  shows "NextVarBytes source = ((data, False), advance (length (varbytes data)) source)"
proof -
  let ?n = "of_nat (length data) :: uint64"
  have r0: "remaining source = varuint_bytes ?n @ (data @ rest)"
    by (simp add: assms(2) varbytes_eq)
  have count: "NextVarUint source = ((?n, False), advance (length (varuint_bytes ?n)) source)"
    by (rule NextVarUint_read [OF assms(1) r0])
  have i1: "in_range (advance (length (varuint_bytes ?n)) source)"
    by (rule advance_in_range [OF assms(1) r0])
  have r1: "remaining (advance (length (varuint_bytes ?n)) source) = data @ rest"
    by (rule advance_remaining [OF r0])
  have len: "unat ?n = length data"
    using assms(3) by (simp add: unat_of_nat)
  have "NextBytes ?n (advance (length (varuint_bytes ?n)) source) =
      ((data, False), advance (length data) (advance (length (varuint_bytes ?n)) source))"
    by (rule NextBytes_read [OF i1 r1 len])
  then show ?thesis
    by (simp add: NextVarBytes_def count advance_advance varbytes_eq)
qed

lemma NextVarBytes_loop_read:
  assumes "in_range source"
    and "remaining source = concat (map varbytes hs) @ rest"
    and "unat i + length hs < 2 ^ 64"
    and "n = i + of_nat (length hs)"
  shows "NextVarBytes_loop i n acc source =
           (False, acc @ hs, advance (length (concat (map varbytes hs))) source)"
  using assms
proof (induction hs arbitrary: i acc source)
  case Nil
  then show ?case
    by (subst NextVarBytes_loop.simps) (simp add: advance_0)
next
  case (Cons h hs)
  let ?source' = "advance (length (varbytes h)) source"
  have un: "unat n = unat i + Suc (length hs)"
    using Cons.prems(3,4) unat_add_of_nat [of i "Suc (length hs)"] by simp
  then have less: "i < n"
    by (simp add: word_less_nat_alt)
  have r0: "remaining source = varbytes h @ (concat (map varbytes hs) @ rest)"
    using Cons.prems(2) by simp
  have "length (remaining source) \<le> length (src_s source)"
    by (simp add: remaining_def)
  then have "length (varbytes h) \<le> length (src_s source)"
    by (simp add: r0)
  moreover have "length (src_s source) < 2 ^ 64"
    using Cons.prems(1) by (simp add: in_range_def)
  ultimately have hlen: "length h < 2 ^ 64"
    using varbytes_length [of h] by linarith
  have rd: "NextVarBytes source = ((h, False), ?source')"
    by (rule NextVarBytes_read [OF Cons.prems(1) r0 hlen])
  have i1: "in_range ?source'"
    by (rule advance_in_range [OF Cons.prems(1) r0])
  have r1: "remaining ?source' = concat (map varbytes hs) @ rest"
    by (rule advance_remaining [OF r0])
  have ui: "unat (i + 1) = Suc (unat i)"
    using Cons.prems(3) unat_add_of_nat [of i 1] by simp
  then have b1: "unat (i + 1) + length hs < 2 ^ 64"
    using Cons.prems(3) by simp
  have n1: "n = (i + 1) + of_nat (length hs)"
    using Cons.prems(4) by simp
  have "NextVarBytes_loop (i + 1) n (acc @ [h]) ?source' =
          (False, (acc @ [h]) @ hs, advance (length (concat (map varbytes hs))) ?source')"
    by (rule Cons.IH [OF i1 r1 b1 n1])
  then show ?case
    by (subst NextVarBytes_loop.simps) (simp add: less rd advance_advance)
qed

lemma NextAddress_read:
  assumes "in_range source" and "remaining source = a @ rest" and "length a = ADDR_LEN"
  shows "NextAddress source = ((a, False), advance ADDR_LEN source)"
proof -
  have "unat (of_nat ADDR_LEN :: uint64) = length a"
    by (simp add: assms(3) ADDR_LEN_def)
  from NextBytes_read [OF assms(1,2) this] show ?thesis
    by (simp add: NextAddress_def assms(3))
qed

lemma NewZeroCopySource_start:
  assumes "length b < 2 ^ 64"
  shows "in_range (NewZeroCopySource b)" and "remaining (NewZeroCopySource b) = b @ []"
  using assms by (simp_all add: in_range_def remaining_def NewZeroCopySource_def)

lemma advance_to_end: "advance (length b) (NewZeroCopySource b) = \<lparr>src_s = b, src_off = length b\<rparr>"
  by (simp add: advance_def NewZeroCopySource_def)

lemma SyncGenesisHeaderParam_roundtrip:
  assumes "length (Bytes (SyncGenesisHeaderParam_Serialization p NewZeroCopySink)) < 2 ^ 64"
  shows "SyncGenesisHeaderParam_Deserialization this
           (NewZeroCopySource (Bytes (SyncGenesisHeaderParam_Serialization p NewZeroCopySink))) =
         (None, p,
          \<lparr>src_s = Bytes (SyncGenesisHeaderParam_Serialization p NewZeroCopySink),
            src_off = length (Bytes (SyncGenesisHeaderParam_Serialization p NewZeroCopySink))\<rparr>)"
proof -
  let ?b = "Bytes (SyncGenesisHeaderParam_Serialization p NewZeroCopySink)"
  let ?cid = "putLE 8 (unat (SyncGenesisHeaderParam.ChainID p))"
  let ?s0 = "NewZeroCopySource ?b"
  have b: "?b = ?cid @ varbytes (GenesisHeader p)"
    by (simp add: Bytes_def SyncGenesisHeaderParam_Serialization_def WriteVarBytes_buf
          WriteUint64_buf NewZeroCopySink_def)
  have i0: "in_range ?s0"
    by (rule NewZeroCopySource_start [OF assms])
  have r0: "remaining ?s0 = ?cid @ (varbytes (GenesisHeader p) @ [])"
    using NewZeroCopySource_start(2) [OF assms] by (simp add: b)
  have rd1: "NextUint64 ?s0 = ((SyncGenesisHeaderParam.ChainID p, False), advance 8 ?s0)"
    by (rule NextUint64_read [OF i0 r0])
  have i1: "in_range (advance (length ?cid) ?s0)"
    by (rule advance_in_range [OF i0 r0])
  have r1: "remaining (advance (length ?cid) ?s0) = varbytes (GenesisHeader p) @ []"
    by (rule advance_remaining [OF r0])
  have "length (GenesisHeader p) \<le> length ?b"
    using varbytes_length [of "GenesisHeader p"] by (simp add: b)
  with assms have glen: "length (GenesisHeader p) < 2 ^ 64"
    by linarith
  have "NextVarBytes (advance (length ?cid) ?s0) =
      ((GenesisHeader p, False), advance (length (varbytes (GenesisHeader p))) (advance (length ?cid) ?s0))"
    by (rule NextVarBytes_read [OF i1 r1 glen])
  moreover have "advance (length (varbytes (GenesisHeader p))) (advance (length ?cid) ?s0) =
      advance (length ?b) ?s0"
    by (simp add: advance_advance b)
  ultimately have rd2: "NextVarBytes (advance 8 ?s0) =
      ((GenesisHeader p, False), \<lparr>src_s = ?b, src_off = length ?b\<rparr>)"
    by (simp add: length_putLE advance_to_end)
  show ?thesis
    by (simp add: SyncGenesisHeaderParam_Deserialization_def rd1 rd2)
qed


lemma read_id_address_list:
  fixes hs :: "byte list list"
  assumes len: "length b < 2 ^ 64"
    and b: "b = putLE 8 (unat cid) @ addr @
              putLE 8 (unat (of_nat (length hs) :: uint64)) @ concat (map varbytes hs)"
    and addr: "length addr = ADDR_LEN"
  shows "\<exists>s1 s2 s3.
           NextUint64 (NewZeroCopySource b) = ((cid, False), s1)
         \<and> NextAddress s1 = ((addr, False), s2)
         \<and> NextUint64 s2 = ((of_nat (length hs), False), s3)
         \<and> NextVarBytes_loop 0 (of_nat (length hs)) [] s3 =
             (False, hs, \<lparr>src_s = b, src_off = length b\<rparr>)"
proof -
  let ?n = "of_nat (length hs) :: uint64"
  let ?c = "putLE 8 (unat cid)"
  let ?m = "putLE 8 (unat ?n)"
  let ?l = "concat (map varbytes hs)"
  let ?s0 = "NewZeroCopySource b"
  let ?s1 = "advance (length ?c) ?s0"
  let ?s2 = "advance (length addr) ?s1"
  let ?s3 = "advance (length ?m) ?s2"
  have i0: "in_range ?s0"
    by (rule NewZeroCopySource_start [OF len])
  have r0: "remaining ?s0 = ?c @ (addr @ ?m @ ?l)"
    using NewZeroCopySource_start(2) [OF len] by (simp add: b [symmetric])
  have rd1: "NextUint64 ?s0 = ((cid, False), ?s1)"
    using NextUint64_read [OF i0 r0] by (simp add: length_putLE)
  have i1: "in_range ?s1"
    by (rule advance_in_range [OF i0 r0])
  have r1: "remaining ?s1 = addr @ (?m @ ?l)"
    by (rule advance_remaining [OF r0])
  have rd2: "NextAddress ?s1 = ((addr, False), ?s2)"
    using NextAddress_read [OF i1 r1 addr] by (simp add: addr)
  have i2: "in_range ?s2"
    by (rule advance_in_range [OF i1 r1])
  have r2: "remaining ?s2 = ?m @ (?l @ [])"
    using advance_remaining [OF r1] by simp
  have rd3: "NextUint64 ?s2 = ((?n, False), ?s3)"
    using NextUint64_read [OF i2 r2] by (simp add: length_putLE)
  have i3: "in_range ?s3"
    by (rule advance_in_range [OF i2 r2])
  have r3: "remaining ?s3 = ?l @ []"
    by (rule advance_remaining [OF r2])
  have "length ?l \<le> length b"
    by (simp add: b)
  with length_concat_varbytes [of hs] len have "length hs < 2 ^ 64"
    by linarith
  then have cnt: "unat (0 :: uint64) + length hs < 2 ^ 64"
    by simp
  have n: "?n = 0 + of_nat (length hs)"
    by simp
  have "NextVarBytes_loop 0 ?n [] ?s3 = (False, [] @ hs, advance (length ?l) ?s3)"
    by (rule NextVarBytes_loop_read [OF i3 r3 cnt n])
  moreover have "advance (length ?l) ?s3 = advance (length b) ?s0"
    by (simp add: advance_advance) (simp add: b add.assoc)
  ultimately have rd4: "NextVarBytes_loop 0 ?n [] ?s3 =
      (False, hs, \<lparr>src_s = b, src_off = length b\<rparr>)"
    by (simp add: advance_to_end)
  from rd1 rd2 rd3 rd4 show ?thesis
    by blast
qed

lemma SyncBlockHeaderParam_roundtrip:
  assumes "length (SyncBlockHeaderParam.Address p) = ADDR_LEN"
    and "length (Bytes (SyncBlockHeaderParam_Serialization p NewZeroCopySink)) < 2 ^ 64"
  shows "SyncBlockHeaderParam_Deserialization this
           (NewZeroCopySource (Bytes (SyncBlockHeaderParam_Serialization p NewZeroCopySink))) =
         (None, p,
          \<lparr>src_s = Bytes (SyncBlockHeaderParam_Serialization p NewZeroCopySink),
            src_off = length (Bytes (SyncBlockHeaderParam_Serialization p NewZeroCopySink))\<rparr>)"
proof -
  let ?b = "Bytes (SyncBlockHeaderParam_Serialization p NewZeroCopySink)"
  have b: "?b = putLE 8 (unat (SyncBlockHeaderParam.ChainID p)) @ SyncBlockHeaderParam.Address p @
      putLE 8 (unat (of_nat (length (Headers p)) :: uint64)) @ concat (map varbytes (Headers p))"
    by (simp add: Bytes_def SyncBlockHeaderParam_Serialization_def fold_WriteVarBytes_buf
          WriteUint64_buf WriteAddress_buf NewZeroCopySink_def)
  from read_id_address_list [OF assms(2) b assms(1)] obtain s1 s2 s3 where
    "NextUint64 (NewZeroCopySource ?b) = ((SyncBlockHeaderParam.ChainID p, False), s1)"
    "NextAddress s1 = ((SyncBlockHeaderParam.Address p, False), s2)"
    "NextUint64 s2 = ((of_nat (length (Headers p)), False), s3)"
    "NextVarBytes_loop 0 (of_nat (length (Headers p))) [] s3 =
       (False, Headers p, \<lparr>src_s = ?b, src_off = length ?b\<rparr>)"
    by blast
  then show ?thesis
    by (simp add: SyncBlockHeaderParam_Deserialization_def)
qed

lemma SyncCrossChainMsgParam_roundtrip:
  assumes "length (SyncCrossChainMsgParam.Address p) = ADDR_LEN"
    and "length (Bytes (SyncCrossChainMsgParam_Serialization p NewZeroCopySink)) < 2 ^ 64"
  shows "SyncCrossChainMsgParam_Deserialization this
           (NewZeroCopySource (Bytes (SyncCrossChainMsgParam_Serialization p NewZeroCopySink))) =
         (None, p,
          \<lparr>src_s = Bytes (SyncCrossChainMsgParam_Serialization p NewZeroCopySink),
            src_off = length (Bytes (SyncCrossChainMsgParam_Serialization p NewZeroCopySink))\<rparr>)"
proof -
  let ?b = "Bytes (SyncCrossChainMsgParam_Serialization p NewZeroCopySink)"
  have b: "?b = putLE 8 (unat (SyncCrossChainMsgParam.ChainID p)) @ SyncCrossChainMsgParam.Address p @
      putLE 8 (unat (of_nat (length (CrossChainMsgs p)) :: uint64)) @
      concat (map varbytes (CrossChainMsgs p))"
    by (simp add: Bytes_def SyncCrossChainMsgParam_Serialization_def fold_WriteVarBytes_buf
          WriteUint64_buf WriteAddress_buf NewZeroCopySink_def)
  from read_id_address_list [OF assms(2) b assms(1)] obtain s1 s2 s3 where
    "NextUint64 (NewZeroCopySource ?b) = ((SyncCrossChainMsgParam.ChainID p, False), s1)"
    "NextAddress s1 = ((SyncCrossChainMsgParam.Address p, False), s2)"
    "NextUint64 s2 = ((of_nat (length (CrossChainMsgs p)), False), s3)"
    "NextVarBytes_loop 0 (of_nat (length (CrossChainMsgs p))) [] s3 =
       (False, CrossChainMsgs p, \<lparr>src_s = ?b, src_off = length ?b\<rparr>)"
    by blast
  then show ?thesis
    by (simp add: SyncCrossChainMsgParam_Deserialization_def)
qed

subsection \<open>The examples\<close>

lemma genesis_param_bytes:
  "Bytes (SyncGenesisHeaderParam_Serialization genesis_param NewZeroCopySink) =
     [2, 1, 0, 0, 0, 0, 0, 0, 3, 7, 8, 9]"
  by (simp add: Bytes_def SyncGenesisHeaderParam_Serialization_def genesis_param_def
        WriteVarBytes_def WriteVarUint_def WriteUint64_def WriteBytes_def NewZeroCopySink_def
        putLE_8)

lemma short_list_reads:
  "NextUint64 (NewZeroCopySource short_list) = ((1, False), \<lparr>src_s = short_list, src_off = 8\<rparr>)"
  "NextAddress \<lparr>src_s = short_list, src_off = 8\<rparr> =
     (([3, 3, 3, 3, 3, 3, 3, 3, 3, 3, 3, 3, 3, 3, 3, 3, 3, 3, 3, 3], False),
      \<lparr>src_s = short_list, src_off = 28\<rparr>)"
  "NextUint64 \<lparr>src_s = short_list, src_off = 28\<rparr> = ((2, False), \<lparr>src_s = short_list, src_off = 36\<rparr>)"
  "NextVarBytes \<lparr>src_s = short_list, src_off = 36\<rparr> = (([170], False), \<lparr>src_s = short_list, src_off = 38\<rparr>)"
  "snd (fst (NextVarBytes \<lparr>src_s = short_list, src_off = 38\<rparr>)) = True"
  by (simp_all add: NewZeroCopySource_def short_list_def
        NextUint64_def NextAddress_def NextVarBytes_def NextVarUint_def NextByte_def NextBytes_def
        ADDR_LEN_def Let_def)

lemma example_lengths:
  "length (Bytes (SyncGenesisHeaderParam_Serialization genesis_param NewZeroCopySink)) = 12"
  "length (Bytes (SyncBlockHeaderParam_Serialization header_param NewZeroCopySink)) = 43"
  "length (Bytes (SyncCrossChainMsgParam_Serialization msg_param NewZeroCopySink)) = 39"
  "length (SyncBlockHeaderParam.Address header_param) = ADDR_LEN"
  "length (SyncCrossChainMsgParam.Address msg_param) = ADDR_LEN"
  by (simp add: genesis_param_bytes)
     (simp_all add: Bytes_def SyncBlockHeaderParam_Serialization_def
        SyncCrossChainMsgParam_Serialization_def header_param_def msg_param_def
        WriteVarBytes_def WriteVarUint_def WriteUint64_def WriteAddress_def WriteBytes_def
        NewZeroCopySink_def length_putLE ADDR_LEN_def)

lemma short_genesis_fails:
  "SyncGenesisHeaderParam_Deserialization this (NewZeroCopySource short_genesis) =
     (Some (Errorf ''utils.DecodeVarBytes, deserialize genesisHeader count error''), this,
      \<lparr>src_s = short_genesis, src_off = 11\<rparr>)"
  by (simp add: SyncGenesisHeaderParam_Deserialization_def NewZeroCopySource_def short_genesis_def
        NextUint64_def NextVarBytes_def NextVarUint_def NextByte_def NextBytes_def Let_def)

lemma short_list_second_read:
  "NextVarBytes \<lparr>src_s = short_list, src_off = 38\<rparr> =
     (([1, 2], True), \<lparr>src_s = short_list, src_off = 41\<rparr>)"
  by (simp add: short_list_def NextVarBytes_def NextVarUint_def NextByte_def NextBytes_def Let_def)

lemma short_list_loop:
  "NextVarBytes_loop 0 2 [] \<lparr>src_s = short_list, src_off = 36\<rparr> =
     (True, [[170]], \<lparr>src_s = short_list, src_off = 41\<rparr>)"
proof -
  have "NextVarBytes_loop (0 + 1) 2 ([] @ [[170]]) \<lparr>src_s = short_list, src_off = 38\<rparr> =
      (True, [[170]], \<lparr>src_s = short_list, src_off = 41\<rparr>)"
    by (subst NextVarBytes_loop.simps) (simp add: short_list_second_read)
  then show ?thesis
    by (subst NextVarBytes_loop.simps) (simp add: short_list_reads(4))
qed

lemma short_list_fails:
  "SyncBlockHeaderParam_Deserialization h (NewZeroCopySource short_list) =
     (Some (Errorf ''utils.DecodeVarBytes, deserialize header error''), h,
      \<lparr>src_s = short_list, src_off = 41\<rparr>)"
  "SyncCrossChainMsgParam_Deserialization x (NewZeroCopySource short_list) =
     (Some (Errorf ''utils.DecodeVarBytes, deserialize crossChainMsg error''), x,
      \<lparr>src_s = short_list, src_off = 41\<rparr>)"
  by (simp_all add: SyncBlockHeaderParam_Deserialization_def
        SyncCrossChainMsgParam_Deserialization_def short_list_reads short_list_loop)

subsection \<open>Errors leave the receiver alone\<close>

lemma SyncGenesisHeaderParam_atomic:
  assumes "SyncGenesisHeaderParam_Deserialization this source = (Some err, this', source')"
  shows "this' = this"
  using assms
  by (auto simp: SyncGenesisHeaderParam_Deserialization_def split: prod.splits if_splits)

lemma SyncBlockHeaderParam_atomic:
  assumes "SyncBlockHeaderParam_Deserialization this source = (Some err, this', source')"
  shows "this' = this"
  using assms
  by (auto simp: SyncBlockHeaderParam_Deserialization_def split: prod.splits if_splits)

lemma SyncCrossChainMsgParam_atomic:
  assumes "SyncCrossChainMsgParam_Deserialization this source = (Some err, this', source')"
  shows "this' = this"
  using assms
  by (auto simp: SyncCrossChainMsgParam_Deserialization_def split: prod.splits if_splits)

text \<open>
  C9. Each of the three \<^verbatim>\<open>Deserialization\<close> functions that returns an error returns its
  receiver as it was given: the fields are assigned after the last read, and every error
  is returned before.
\<close>

theorem Deserialization_atomic_on_error:
  "(SyncGenesisHeaderParam_Deserialization g source = (Some err, g', source') \<longrightarrow> g' = g)
   \<and> (SyncBlockHeaderParam_Deserialization h source = (Some err, h', source') \<longrightarrow> h' = h)
   \<and> (SyncCrossChainMsgParam_Deserialization x source = (Some err, x', source') \<longrightarrow> x' = x)"
  using SyncGenesisHeaderParam_atomic SyncBlockHeaderParam_atomic SyncCrossChainMsgParam_atomic
  by blast

theorem Deserialization_atomic_on_error_witness:
  "fst (SyncGenesisHeaderParam_Deserialization genesis_param (NewZeroCopySource short_genesis)) =
     Some (Errorf ''utils.DecodeVarBytes, deserialize genesisHeader count error'')
   \<and> fst (snd (SyncGenesisHeaderParam_Deserialization genesis_param
        (NewZeroCopySource short_genesis))) = genesis_param
   \<and> fst (SyncBlockHeaderParam_Deserialization header_param (NewZeroCopySource short_list)) =
     Some (Errorf ''utils.DecodeVarBytes, deserialize header error'')
   \<and> fst (snd (SyncBlockHeaderParam_Deserialization header_param
        (NewZeroCopySource short_list))) = header_param
   \<and> fst (SyncCrossChainMsgParam_Deserialization msg_param (NewZeroCopySource short_list)) =
     Some (Errorf ''utils.DecodeVarBytes, deserialize crossChainMsg error'')
   \<and> fst (snd (SyncCrossChainMsgParam_Deserialization msg_param
        (NewZeroCopySource short_list))) = msg_param"
proof -
  let ?g = "SyncGenesisHeaderParam_Deserialization genesis_param (NewZeroCopySource short_genesis)"
  let ?h = "SyncBlockHeaderParam_Deserialization header_param (NewZeroCopySource short_list)"
  let ?x = "SyncCrossChainMsgParam_Deserialization msg_param (NewZeroCopySource short_list)"
  have g: "fst ?g = Some (Errorf ''utils.DecodeVarBytes, deserialize genesisHeader count error'')"
    by (simp add: short_genesis_fails)
  have h: "fst ?h = Some (Errorf ''utils.DecodeVarBytes, deserialize header error'')"
    by (simp add: short_list_fails)
  have x: "fst ?x = Some (Errorf ''utils.DecodeVarBytes, deserialize crossChainMsg error'')"
    by (simp add: short_list_fails)
  have "?g = (Some (Errorf ''utils.DecodeVarBytes, deserialize genesisHeader count error''),
      fst (snd ?g), snd (snd ?g))"
    using g by (metis prod.collapse)
  then have g': "fst (snd ?g) = genesis_param"
    by (rule Deserialization_atomic_on_error [THEN conjunct1, rule_format])
  have "?h = (Some (Errorf ''utils.DecodeVarBytes, deserialize header error''),
      fst (snd ?h), snd (snd ?h))"
    using h by (metis prod.collapse)
  then have h': "fst (snd ?h) = header_param"
    by (rule Deserialization_atomic_on_error [THEN conjunct2, THEN conjunct1, rule_format])
  have "?x = (Some (Errorf ''utils.DecodeVarBytes, deserialize crossChainMsg error''),
      fst (snd ?x), snd (snd ?x))"
    using x by (metis prod.collapse)
  then have x': "fst (snd ?x) = msg_param"
    by (rule Deserialization_atomic_on_error [THEN conjunct2, THEN conjunct2, rule_format])
  from g g' h h' x x' show ?thesis
    by (intro conjI)
qed

subsection \<open>Round trip\<close>

text \<open>
  C10. A source made of exactly the bytes that \<^verbatim>\<open>Serialization\<close> wrote to an empty sink is
  read back by \<^verbatim>\<open>Deserialization\<close> without an error, into the value that was written,
  whatever the receiver held before: the same chain id, the same address and the same
  byte strings, element for element; the source is then at its end. The two hypotheses
  hold of every Go value: an address is an array of \<open>ADDR_LEN\<close> bytes, and a slice is
  shorter than \<open>2 ^ 63\<close>.
\<close>

theorem Serialization_Deserialization_roundtrip:
  "(length (Bytes (SyncGenesisHeaderParam_Serialization g NewZeroCopySink)) < 2 ^ 64 \<longrightarrow>
      SyncGenesisHeaderParam_Deserialization g0
        (NewZeroCopySource (Bytes (SyncGenesisHeaderParam_Serialization g NewZeroCopySink))) =
      (None, g,
       \<lparr>src_s = Bytes (SyncGenesisHeaderParam_Serialization g NewZeroCopySink),
         src_off = length (Bytes (SyncGenesisHeaderParam_Serialization g NewZeroCopySink))\<rparr>))
   \<and> (length (SyncBlockHeaderParam.Address h) = ADDR_LEN \<longrightarrow>
       length (Bytes (SyncBlockHeaderParam_Serialization h NewZeroCopySink)) < 2 ^ 64 \<longrightarrow>
      SyncBlockHeaderParam_Deserialization h0
        (NewZeroCopySource (Bytes (SyncBlockHeaderParam_Serialization h NewZeroCopySink))) =
      (None, h,
       \<lparr>src_s = Bytes (SyncBlockHeaderParam_Serialization h NewZeroCopySink),
         src_off = length (Bytes (SyncBlockHeaderParam_Serialization h NewZeroCopySink))\<rparr>))
   \<and> (length (SyncCrossChainMsgParam.Address x) = ADDR_LEN \<longrightarrow>
       length (Bytes (SyncCrossChainMsgParam_Serialization x NewZeroCopySink)) < 2 ^ 64 \<longrightarrow>
      SyncCrossChainMsgParam_Deserialization x0
        (NewZeroCopySource (Bytes (SyncCrossChainMsgParam_Serialization x NewZeroCopySink))) =
      (None, x,
       \<lparr>src_s = Bytes (SyncCrossChainMsgParam_Serialization x NewZeroCopySink),
         src_off = length (Bytes (SyncCrossChainMsgParam_Serialization x NewZeroCopySink))\<rparr>))"
  using SyncGenesisHeaderParam_roundtrip SyncBlockHeaderParam_roundtrip
    SyncCrossChainMsgParam_roundtrip
  by blast

theorem Serialization_Deserialization_roundtrip_witness:
  "fst (snd (SyncGenesisHeaderParam_Deserialization
       \<lparr>SyncGenesisHeaderParam.ChainID = 0, GenesisHeader = []\<rparr>
       (NewZeroCopySource (Bytes (SyncGenesisHeaderParam_Serialization genesis_param NewZeroCopySink)))))
     = genesis_param
   \<and> fst (snd (SyncBlockHeaderParam_Deserialization
       \<lparr>SyncBlockHeaderParam.ChainID = 0, SyncBlockHeaderParam.Address = replicate 20 0, Headers = []\<rparr>
       (NewZeroCopySource (Bytes (SyncBlockHeaderParam_Serialization header_param NewZeroCopySink)))))
     = header_param
   \<and> fst (snd (SyncCrossChainMsgParam_Deserialization
       \<lparr>SyncCrossChainMsgParam.ChainID = 0, SyncCrossChainMsgParam.Address = replicate 20 0,
         CrossChainMsgs = []\<rparr>
       (NewZeroCopySource (Bytes (SyncCrossChainMsgParam_Serialization msg_param NewZeroCopySink)))))
     = msg_param"
proof -
  have g: "length (Bytes (SyncGenesisHeaderParam_Serialization genesis_param NewZeroCopySink)) < 2 ^ 64"
    by (simp add: example_lengths)
  have h: "length (Bytes (SyncBlockHeaderParam_Serialization header_param NewZeroCopySink)) < 2 ^ 64"
    by (simp add: example_lengths)
  have x: "length (Bytes (SyncCrossChainMsgParam_Serialization msg_param NewZeroCopySink)) < 2 ^ 64"
    by (simp add: example_lengths)
  show ?thesis
    using Serialization_Deserialization_roundtrip [THEN conjunct1, rule_format, OF g]
      Serialization_Deserialization_roundtrip [THEN conjunct2, THEN conjunct1, rule_format,
        OF example_lengths(4) h]
      Serialization_Deserialization_roundtrip [THEN conjunct2, THEN conjunct2, rule_format,
        OF example_lengths(5) x]
    by simp
qed

end
